theory Spec2Isabelle
  imports
    Complex_Main
    "HOL-Library.Char_ord"
    "HOL-Library.List_Lexorder"
    "HOL-Library.AList"
    "HOL-Library.Sublist"
begin

section \<open>Common vocabulary\<close>

text \<open>
  A path is the list of its components (\<open>Path.parts\<close>); \<open>p @ [n]\<close> is \<open>p / n\<close> for one
  entry name \<open>n\<close>. Python strings are compared by code point; on UTF-8 bytes that is the
  lexicographic order of \<open>char list\<close>, which \<open>Char_ord\<close> and \<open>List_Lexorder\<close> provide.
\<close>

type_synonym path = "string list"

datatype error =
    ValueError
  | KeyError
  | NotADirectoryError
  | StoreNotRegisteredError
  | WindowedStoreAlreadyRegisteredError
  | PartitionStoreIsUsed

section \<open>quixstreams/sources/community/file/file.py\<close>

subsection \<open>The builtin \<open>int(str)\<close>\<close>

text \<open>
  On a name of ASCII characters \<open>int(file.parent.name)\<close> parses a decimal literal: the
  whitespace around it is stripped (tab, line feed, vertical tab, form feed, carriage
  return and the blank, and no other character), one sign is allowed, single underscores
  may separate digits, leading zeros are allowed. Anything else raises ValueError (here
  \<open>None\<close>).
\<close>

definition is_space :: "char \<Rightarrow> bool" where
  "is_space c = (let n = (of_char c :: nat) in (9 \<le> n \<and> n \<le> 13) \<or> n = 32)"

definition is_digit :: "char \<Rightarrow> bool" where
  "is_digit c = (let n = (of_char c :: nat) in 48 \<le> n \<and> n \<le> 57)"

definition digit_val :: "char \<Rightarrow> nat" where
  "digit_val c = of_char c - 48"

fun digits_val :: "nat \<Rightarrow> string \<Rightarrow> nat option" where
  "digits_val acc [] = Some acc"
| "digits_val acc [c] = (if is_digit c then Some (10 * acc + digit_val c) else None)"
| "digits_val acc (c # d # ds) =
     (if is_digit c then digits_val (10 * acc + digit_val c) (d # ds)
      else if c = CHR ''_'' \<and> is_digit d then digits_val (10 * acc + digit_val d) ds
      else None)"

definition unsigned_int :: "string \<Rightarrow> nat option" where
  "unsigned_int s =
     (case s of [] \<Rightarrow> None
      | c # cs \<Rightarrow> if is_digit c then digits_val (digit_val c) cs else None)"

definition strip :: "string \<Rightarrow> string" where
  "strip s = rev (dropWhile is_space (rev (dropWhile is_space s)))"

definition py_int :: "string \<Rightarrow> int option" where
  "py_int s =
     (case strip s of [] \<Rightarrow> None
      | c # cs \<Rightarrow>
          if c = CHR ''-'' then map_option (\<lambda>n. - int n) (unsigned_int cs)
          else if c = CHR ''+'' then map_option int (unsigned_int cs)
          else map_option int (unsigned_int (c # cs)))"

text \<open>
  \<open>int\<close> also takes the digits and the whitespace of other scripts, and it refuses a
  literal longer than a limit that can be configured (4300 digits unless set otherwise).
  Neither is parsed here: for a name with a character outside ASCII, and for a name with
  more than 4300 digits, the result of \<open>int\<close> is the parameter \<open>int_other\<close>.
\<close>

definition plain_literal :: "string \<Rightarrow> bool" where
  "plain_literal s =
     (list_all (\<lambda>c. (of_char c :: nat) < 128) s \<and> length (filter is_digit s) \<le> 4300)"

definition int_of_name :: "(string \<Rightarrow> int option) \<Rightarrow> string \<Rightarrow> int option" where
  "int_of_name int_other s = (if plain_literal s then py_int s else int_other s)"


subsection \<open>The file tree\<close>

text \<open>
  Modelled from the spec: the record that \<open>Format.file_read\<close> yields (the formats module
  is not part of the source at hand): a key, a value and a timestamp in milliseconds,
  read by \<open>run\<close> as \<open>_key\<close>, \<open>_value\<close> and \<open>_timestamp\<close>.
\<close>

record file_record =
  r_key :: string
  r_value :: string
  r_timestamp :: int

text \<open>
  A file node carries the records that reading the file yields. A directory node carries
  its entries in the order \<open>iterdir()\<close> lists them, which the operating system chooses.
\<close>

datatype fsnode = File "file_record list" | Dir "(string \<times> fsnode) list"

text \<open>Entry names are unique within a directory, at every level.\<close>

fun wf_tree :: "fsnode \<Rightarrow> bool" where
  "wf_tree (File rs) = True"
| "wf_tree (Dir es) = (distinct (map fst es) \<and> (\<forall>e \<in> set es. wf_tree (snd e)))"

text \<open>The non-directory files below a node, with the path that leads to each.\<close>

fun files_of :: "path \<Rightarrow> fsnode \<Rightarrow> path set" where
  "files_of p (File rs) = {p}"
| "files_of p (Dir es) = (\<Union>e \<in> set es. files_of (p @ [fst e]) (snd e))"

text \<open>
  \<open>_file_finder\<close>: a generator; the list is what it yields, in order, each path with the
  records of its file.
\<close>

function file_finder :: "path \<Rightarrow> fsnode \<Rightarrow> (path \<times> file_record list) list" where
  "file_finder p (File rs) = [(p, rs)]"
| "file_finder p (Dir es) =
     concat (map (\<lambda>e. file_finder (p @ [fst e]) (snd e)) (sort_key fst es))"
  by pat_completeness auto
termination
proof (relation "measure (\<lambda>(p, t). size t)")
  show "wf (measure (\<lambda>(p, t). size t))" by simp
next
  fix p :: path and es :: "(string \<times> fsnode) list" and e
  assume "e \<in> set (sort_key fst es)"
  then have "e \<in> set es" by simp
  then have "size (snd e) < Suc (size_list (size_prod (\<lambda>_. 0) size) es)"
    by (induction es) (auto simp: less_Suc_eq_le)
  then show "((p @ [fst e], snd e), (p, Dir es)) \<in> measure (\<lambda>(p, t). size t)"
    by simp
qed

subsection \<open>FileSource\<close>

datatype source_event = Sleep rat | Produce file_record | Flush

text \<open>
  The fields of \<open>FileSource\<close> that \<open>run\<close> reads and writes, the \<open>running\<close> flag of the base
  \<open>Source\<close>, and the effects so far in order: each \<open>sleep\<close>, \<open>produce\<close> and \<open>flush\<close>.
  A sleep is kept as the exact quotient; Python rounds it to the nearest double.
  \<open>_produce\<close> serializes the record and hands it to \<open>Source.produce\<close>; the effect kept is
  the record.
\<close>

record file_source =
  filepath :: path
  as_replay :: bool
  previous_timestamp :: "int option"
  previous_partition :: "int option"
  running :: bool
  emitted :: "source_event list"



definition replay_delay :: "int \<Rightarrow> file_source \<Rightarrow> file_source" where
  "replay_delay current_timestamp s =
     (let s1 =
        (case previous_timestamp s of
           None \<Rightarrow> s
         | Some prev \<Rightarrow>
             (let time_diff = (of_int (current_timestamp - prev) :: rat) / 1000
              in if time_diff > 0 then s\<lparr>emitted := emitted s @ [Sleep time_diff]\<rparr> else s))
      in s1\<lparr>previous_timestamp := Some current_timestamp\<rparr>)"

definition parent_name :: "path \<Rightarrow> string" where
  "parent_name file = (if length file < 2 then [] else last (butlast file))"

definition check_file_partition_number ::
  "(string \<Rightarrow> int option) \<Rightarrow> path \<Rightarrow> file_source \<Rightarrow> error + file_source" where
  "check_file_partition_number int_other file s =
     (case int_of_name int_other (parent_name file) of
        None \<Rightarrow> Inl ValueError
      | Some pnum \<Rightarrow>
          Inr (if previous_partition s \<noteq> Some pnum
               then s\<lparr>previous_timestamp := None, previous_partition := Some pnum\<rparr>
               else s))"

definition produce :: "file_record \<Rightarrow> file_source \<Rightarrow> file_source" where
  "produce r s = s\<lparr>emitted := emitted s @ [Produce r]\<rparr>"

definition flush :: "file_source \<Rightarrow> file_source" where
  "flush s = s\<lparr>emitted := emitted s @ [Flush]\<rparr>"

text \<open>The inner loop of \<open>run\<close>: \<open>for record in self._formatter.file_read(file)\<close>.\<close>

fun read_records :: "file_record list \<Rightarrow> file_source \<Rightarrow> file_source" where
  "read_records [] s = s"
| "read_records (r # rs) s =
     read_records rs
       (produce r (if as_replay s then replay_delay (r_timestamp r) s else s))"

text \<open>
  The outer loop of \<open>run\<close>: \<open>for file in _file_finder(self._filepath)\<close>. An exception
  leaves the loop with the state reached so far.
\<close>

fun read_files ::
  "(string \<Rightarrow> int option) \<Rightarrow> (path \<times> file_record list) list \<Rightarrow> file_source
    \<Rightarrow> error option \<times> file_source" where
  "read_files int_other [] s = (None, s)"
| "read_files int_other ((file, rs) # rest) s =
     (case check_file_partition_number int_other file s of
        Inl e \<Rightarrow> (Some e, s)
      | Inr s1 \<Rightarrow> read_files int_other rest (flush (read_records rs s1)))"

text \<open>
  The body of \<open>while self._running\<close>: the \<open>for\<close> loop, then the \<open>return\<close> statement.
  How the body ends is a value: an exception, the \<open>return\<close>, or falling off the end
  (which would re-test the loop condition).
\<close>

datatype ending = Raised error | Returned | Fell_through

definition run_body ::
  "(string \<Rightarrow> int option) \<Rightarrow> fsnode \<Rightarrow> file_source \<Rightarrow> ending \<times> file_source" where
  "run_body int_other tree s =
     (case read_files int_other (file_finder (filepath s) tree) s of
        (Some e, s') \<Rightarrow> (Raised e, s')
      | (None, s') \<Rightarrow> (Returned, s'))"

partial_function (option) run ::
  "(string \<Rightarrow> int option) \<Rightarrow> fsnode \<Rightarrow> file_source \<Rightarrow> (error option \<times> file_source) option" where
  "run int_other tree s =
     (if running s then
        (case run_body int_other tree s of
           (Raised e, s') \<Rightarrow> Some (Some e, s')
         | (Returned, s') \<Rightarrow> Some (None, s')
         | (Fell_through, s') \<Rightarrow> run int_other tree s')
      else Some (None, s))"

text \<open>
  Modelled from the spec: \<open>Topic\<close> and \<open>TopicConfig\<close> (\<open>quixstreams.models\<close> is not part of
  the source at hand). A topic is declared with a name and a config; of a config the two
  keyword arguments that \<open>default_topic\<close> passes are kept, the partition count and the
  replication factor.
\<close>

record topic_config =
  num_partitions :: int
  replication_factor :: int

record topic =
  name_of_topic :: string
  config :: topic_config

definition get_partition_count :: "fsnode \<Rightarrow> error + int" where
  "get_partition_count tree =
     (case tree of
        Dir es \<Rightarrow> Inr (int (length es))
      | File rs \<Rightarrow> Inl NotADirectoryError)"

text \<open>
  \<open>default_topic\<close>; \<open>super_topic\<close> is what \<open>super().default_topic()\<close> returns, \<open>tree\<close> is
  the node at \<open>self._filepath\<close>.
\<close>

definition default_topic :: "topic \<Rightarrow> fsnode \<Rightarrow> error + topic" where
  "default_topic super_topic tree =
     (case get_partition_count tree of
        Inl e \<Rightarrow> Inl e
      | Inr n \<Rightarrow> Inr (super_topic\<lparr>config := \<lparr>num_partitions = n, replication_factor = 1\<rparr>\<rparr>))"

subsection \<open>What the source emits, as the specification words it\<close>







subsection \<open>Auxiliary functions for the proofs\<close>





section \<open>docs/tutorials/anomaly-detection/tutorial_app.py\<close>

text \<open>
  The two class attributes: for a temperature in the 40s, 50s, ... the weights of the
  changes \<open>[-1, 0, 1]\<close>. A Python dict is a map; a missing key is \<open>None\<close>.
\<close>

definition probabilities_normal :: "int \<rightharpoonup> int list" where
  "probabilities_normal =
     [40 \<mapsto> [0, 0, 100],
      50 \<mapsto> [20, 30, 50],
      60 \<mapsto> [30, 40, 30],
      70 \<mapsto> [40, 50, 10],
      80 \<mapsto> [80, 10, 10],
      90 \<mapsto> [100, 0, 0]]"

definition probabilities_issue :: "int \<rightharpoonup> int list" where
  "probabilities_issue =
     [40 \<mapsto> [0, 0, 100],
      50 \<mapsto> [0, 10, 90],
      60 \<mapsto> [5, 15, 80],
      70 \<mapsto> [5, 20, 75],
      80 \<mapsto> [5, 20, 75],
      90 \<mapsto> [10, 20, 70]]"

text \<open>
  An event as \<open>generate_event\<close> returns it: the key is \<open>str(machine_id)\<close>, kept here as
  the number; the \<open>Timestamp\<close> (\<open>time.time_ns()\<close>) is left out.
\<close>

record temperature_event =
  event_key :: int
  temperature_c :: int

text \<open>
  The state of a \<open>TemperatureGenerator\<close>; \<open>gen_running\<close> is the \<open>running\<close> flag of the base
  \<open>Source\<close>, \<open>gen_produced\<close> the events handed to \<open>produce\<close> so far.
\<close>

record temperature_generator =
  event_count :: int
  machine_temps :: "int \<rightharpoonup> int"
  machine_types :: "int \<rightharpoonup> (int \<rightharpoonup> int list)"
  gen_running :: bool
  gen_produced :: "temperature_event list"

text \<open>\<open>__init__\<close>, and the flag set as it is when the application calls \<open>run\<close>.\<close>

definition TemperatureGenerator :: temperature_generator where
  "TemperatureGenerator =
     \<lparr>event_count = 0,
      machine_temps = [0 \<mapsto> 66, 1 \<mapsto> 58, 2 \<mapsto> 62],
      machine_types =
        [0 \<mapsto> probabilities_normal, 1 \<mapsto> probabilities_normal, 2 \<mapsto> probabilities_issue],
      gen_running = True,
      gen_produced = []\<rparr>"

text \<open>
  \<open>random.choices(population, weights)[0]\<close>. The random outcome is a parameter: the index
  \<open>i\<close> that the call selects. \<open>can_select\<close> says which indices it can select, those of
  positive weight. \<open>choices\<close> raises ValueError when the lengths differ or the weights do
  not add up to more than zero.
\<close>

definition can_select :: "int list \<Rightarrow> nat \<Rightarrow> bool" where
  "can_select weights i = (i < length weights \<and> 0 < weights ! i)"

definition choices :: "int list \<Rightarrow> int list \<Rightarrow> nat \<Rightarrow> error + int" where
  "choices population weights i =
     (if length weights \<noteq> length population then Inl ValueError
      else if sum_list weights \<le> 0 then Inl ValueError
      else if i < length population then Inr (population ! i)
      else Inl ValueError)"

text \<open>
  Modelled from the spec: \<open>Source.stop()\<close> (the base \<open>Source\<close> is not part of the source at
  hand) clears \<open>running\<close>.
\<close>

definition stop :: "temperature_generator \<Rightarrow> temperature_generator" where
  "stop g = g\<lparr>gen_running := False\<rparr>"

definition update_machine_temp :: "int \<Rightarrow> nat \<Rightarrow> temperature_generator \<Rightarrow> error + temperature_generator" where
  "update_machine_temp machine_id i g =
     (case machine_temps g machine_id of
        None \<Rightarrow> Inl KeyError
      | Some temp \<Rightarrow>
          (case machine_types g machine_id of
             None \<Rightarrow> Inl KeyError
           | Some table \<Rightarrow>
               (case table ((temp div 10) * 10) of
                  None \<Rightarrow> Inl KeyError
                | Some weights \<Rightarrow>
                    (case choices [-1, 0, 1] weights i of
                       Inl e \<Rightarrow> Inl e
                     | Inr change \<Rightarrow>
                         Inr (g\<lparr>machine_temps := (machine_temps g)(machine_id \<mapsto> temp + change)\<rparr>)))))"

definition generate_event ::
  "nat \<Rightarrow> temperature_generator \<Rightarrow> error + (temperature_event \<times> temperature_generator)" where
  "generate_event i g =
     (let machine_id = event_count g mod 3 in
      case update_machine_temp machine_id i g of
        Inl e \<Rightarrow> Inl e
      | Inr g1 \<Rightarrow>
          (case machine_temps g1 machine_id of
             None \<Rightarrow> Inl KeyError
           | Some temp \<Rightarrow>
               (let event_out = \<lparr>event_key = machine_id, temperature_c = temp\<rparr>;
                    g2 = g1\<lparr>event_count := event_count g1 + 1\<rparr>;
                    g3 = (if temp = 100 then stop g2 else g2)
                in Inr (event_out, g3))))"

text \<open>
  The weights that the next \<open>generate_event\<close> hands to \<open>random.choices\<close>, if it gets that
  far.
\<close>

definition next_weights :: "temperature_generator \<Rightarrow> int list option" where
  "next_weights g =
     (let machine_id = event_count g mod 3 in
      case machine_temps g machine_id of
        None \<Rightarrow> None
      | Some temp \<Rightarrow>
          (case machine_types g machine_id of
             None \<Rightarrow> None
           | Some table \<Rightarrow> table ((temp div 10) * 10)))"

text \<open>
  \<open>run\<close>: \<open>while self.running\<close>, generate an event and produce it. The loop is run on a
  finite list of random outcomes, one for each turn; it ends when the flag is clear, when
  an exception is raised, or with the list.
\<close>

fun run_generator :: "nat list \<Rightarrow> temperature_generator \<Rightarrow> error + temperature_generator" where
  "run_generator [] g = Inr g"
| "run_generator (i # draws) g =
     (if gen_running g then
        (case generate_event i g of
           Inl e \<Rightarrow> Inl e
         | Inr (event, g') \<Rightarrow>
             run_generator draws (g'\<lparr>gen_produced := gen_produced g' @ [event]\<rparr>))
      else Inr g)"

text \<open>The outcomes that can occur, turn by turn: each has positive weight when it is drawn.\<close>

fun possible_draws :: "nat list \<Rightarrow> temperature_generator \<Rightarrow> bool" where
  "possible_draws [] g = True"
| "possible_draws (i # draws) g =
     (if gen_running g then
        (case next_weights g of None \<Rightarrow> True | Some weights \<Rightarrow> can_select weights i)
        \<and> (case generate_event i g of
             Inl e \<Rightarrow> True
           | Inr (event, g') \<Rightarrow>
               possible_draws draws (g'\<lparr>gen_produced := gen_produced g' @ [event]\<rparr>))
      else True)"

text \<open>The three machines' temperatures lie in the given closed range.\<close>

definition temps_within :: "int \<Rightarrow> int \<Rightarrow> temperature_generator \<Rightarrow> bool" where
  "temps_within lo hi g =
     list_all (\<lambda>m. case machine_temps g m of None \<Rightarrow> False | Some t \<Rightarrow> lo \<le> t \<and> t \<le> hi)
       [0, 1, 2]"

text \<open>
  The invariant of the loop: the tables are the ones of \<open>__init__\<close>, the two normal
  machines stay between 40 and 90, the third between 40 and 100, and the flag is set
  exactly as long as the third has not reached 100.
\<close>

definition gen_inv :: "temperature_generator \<Rightarrow> bool" where
  "gen_inv g =
     (machine_types g 0 = Some probabilities_normal
      \<and> machine_types g 1 = Some probabilities_normal
      \<and> machine_types g 2 = Some probabilities_issue
      \<and> (\<exists>t0 t1 t2.
            machine_temps g 0 = Some t0 \<and> machine_temps g 1 = Some t1
            \<and> machine_temps g 2 = Some t2
            \<and> 40 \<le> t0 \<and> t0 \<le> 90 \<and> 40 \<le> t1 \<and> t1 \<le> 90 \<and> 40 \<le> t2 \<and> t2 \<le> 100
            \<and> (gen_running g \<longleftrightarrow> t2 \<noteq> 100)))"


section \<open>quixstreams/state/manager.py\<close>

subsection \<open>Dictionaries\<close>

text \<open>
  A Python dict keeps its keys in insertion order, and \<open>on_partition_assign\<close> and
  \<open>on_partition_revoke\<close> iterate over one. A dict is therefore an association list:
  \<open>map_of d k\<close> is \<open>d.get(k)\<close>, and \<open>AList.update k v d\<close> is \<open>d[k] = v\<close>, which replaces the
  value in place when the key is there and appends the pair otherwise. In a dict no key
  occurs twice.
\<close>

type_synonym ('k, 'v) dict = "('k \<times> 'v) list"

subsection \<open>The collaborators of the manager\<close>

text \<open>
  Modelled from the spec: \<open>StorePartition\<close> (\<open>state/base.py\<close> is not part of the source at
  hand). A store partition is the unit of one (topic, partition, store) and has at most
  one open transaction.
\<close>

record store_partition =
  sp_topic :: "string option"
  sp_store :: string
  sp_partition :: int
  open_transaction :: bool

text \<open>
  Modelled from the spec: \<open>RowProducer\<close>, \<open>RocksDBOptionsType\<close> and
  \<open>ChangelogProducerFactory\<close> (\<open>rowproducer.py\<close>, \<open>state/rocksdb\<close> and \<open>state/recovery.py\<close> are
  not part of the source at hand). The broker producer and the options are opaque values;
  a factory is made from the name of a changelog topic and the producer. A changelog
  topic is named from the source topic and the store name (the group id is fixed for one
  recovery manager).
\<close>

datatype producer = RowProducer nat

datatype rocksdb_options = RocksDBOptions nat

record changelog_producer_factory =
  changelog_name :: "string option \<times> string"
  factory_producer :: producer

text \<open>
  Modelled from the spec: \<open>Store\<close> and its subclasses \<open>RocksDBStore\<close>, \<open>MemoryStore\<close> and
  \<open>WindowedRocksDBStore\<close> (\<open>state/base.py\<close>, \<open>state/memory\<close> and \<open>state/rocksdb\<close> are not part
  of the source at hand). A store is the registry of its partitions, with the arguments
  it was built from. \<open>assign_partition\<close> is idempotent and returns the existing partition
  if there is one; \<open>revoke_partition\<close> closes the partition and fails with
  PartitionStoreIsUsed if a transaction is open.
\<close>

datatype store_class = RocksDB_store | Memory_store | WindowedRocksDB_store

record store =
  s_class :: store_class
  s_name :: string
  s_topic :: "string option"
  s_base_dir :: "path option option"
  s_changelog_producer_factory :: "changelog_producer_factory option"
  s_options :: "rocksdb_options option"
  partitions :: "(int, store_partition) dict"

definition assign_partition :: "int \<Rightarrow> store \<Rightarrow> store_partition \<times> store" where
  "assign_partition pnum st =
     (case map_of (partitions st) pnum of
        Some sp \<Rightarrow> (sp, st)
      | None \<Rightarrow>
          (let sp = \<lparr>sp_topic = s_topic st, sp_store = s_name st, sp_partition = pnum,
                     open_transaction = False\<rparr>
           in (sp, st\<lparr>partitions := AList.update pnum sp (partitions st)\<rparr>)))"

definition revoke_partition :: "int \<Rightarrow> store \<Rightarrow> error + store" where
  "revoke_partition pnum st =
     (case map_of (partitions st) pnum of
        None \<Rightarrow> Inr st
      | Some sp \<Rightarrow>
          if open_transaction sp then Inl PartitionStoreIsUsed
          else Inr (st\<lparr>partitions := AList.delete pnum (partitions st)\<rparr>))"

text \<open>
  Modelled from the spec: \<open>RecoveryManager\<close> (\<open>state/recovery.py\<close> is not part of the source
  at hand). It keeps the changelogs registered with it and the partitions it is to
  recover; \<open>revoke_partition\<close> makes it abandon the replay of a partition.
\<close>

record recovery_manager =
  rm_changelogs :: "(string option \<times> string) list"
  rm_partitions :: "(string option \<times> int) list"

definition register_changelog ::
  "string option \<Rightarrow> string \<Rightarrow> topic_config option \<Rightarrow> recovery_manager
    \<Rightarrow> (string option \<times> string) \<times> recovery_manager" where
  "register_changelog topic_name store_name topic_config rm =
     ((topic_name, store_name),
      rm\<lparr>rm_changelogs := rm_changelogs rm @ [(topic_name, store_name)]\<rparr>)"

definition recovery_assign_partition :: "string option \<Rightarrow> int \<Rightarrow> recovery_manager \<Rightarrow> recovery_manager" where
  "recovery_assign_partition topic pnum rm =
     rm\<lparr>rm_partitions := rm_partitions rm @ [(topic, pnum)]\<rparr>"

definition recovery_revoke_partition :: "int \<Rightarrow> recovery_manager \<Rightarrow> recovery_manager" where
  "recovery_revoke_partition pnum rm =
     rm\<lparr>rm_partitions := filter (\<lambda>tp. snd tp \<noteq> pnum) (rm_partitions rm)\<rparr>"

subsection \<open>Paths and the file system\<close>

text \<open>
  \<open>base / g\<close> of \<open>pathlib\<close> on a POSIX system, for a string \<open>g\<close>: \<open>g\<close> is split at the
  slashes, and its empty components and the components \<open>.\<close> are dropped; what is left is
  appended to the base, unless \<open>g\<close> begins with a slash: then it replaces the base. A
  component \<open>..\<close> is kept as it is. (A path is its components below the root; two leading
  slashes are taken as the root.)
\<close>

fun split_slash :: "string \<Rightarrow> string list" where
  "split_slash [] = [[]]"
| "split_slash (c # cs) =
     (if c = CHR ''/'' then [] # split_slash cs
      else (case split_slash cs of [] \<Rightarrow> [[c]] | x # xs \<Rightarrow> (c # x) # xs))"

definition path_parts :: "string \<Rightarrow> path" where
  "path_parts g = filter (\<lambda>c. c \<noteq> [] \<and> c \<noteq> ''.'') (split_slash g)"

definition join_path :: "path \<Rightarrow> string \<Rightarrow> path" where
  "join_path base g =
     (case g of
        [] \<Rightarrow> base
      | c # cs \<Rightarrow> if c = CHR ''/'' then path_parts g else base @ path_parts g)"

text \<open>
  The file system, as far as \<open>shutil.rmtree\<close> sees it. An entry is a regular file, a
  symbolic link, or a directory with its entries; with each entry goes whether the
  operating system lets it be removed (\<open>unlink\<close> of a file or a link, \<open>rmdir\<close> of a directory
  once it is empty): permissions, a file in use or a mount can forbid it. The file system
  is the list of the entries of the root directory, which itself is never removed.
\<close>

datatype fs_node = Regular bool | Symlink bool | Directory bool "(string \<times> fs_node) list"

type_synonym file_system = "(string \<times> fs_node) list"



text \<open>
  The paths that are resolved here: no component is \<open>..\<close> or holds a null character, and
  no component but the last is a symbolic link (the operating system would follow it).
\<close>

fun follows_no_link :: "fs_node \<Rightarrow> path \<Rightarrow> bool" where
  "follows_no_link t [] = True"
| "follows_no_link (Directory r es) (c # cs) =
     (case map_of es c of None \<Rightarrow> True | Some t \<Rightarrow> follows_no_link t cs)"
| "follows_no_link (Regular r) (c # cs) = True"
| "follows_no_link (Symlink r) (c # cs) = False"

definition plain_path :: "file_system \<Rightarrow> path \<Rightarrow> bool" where
  "plain_path files p =
     (list_all (\<lambda>c. c \<noteq> ''..'' \<and> CHR 0x00 \<notin> set c) p
      \<and> follows_no_link (Directory False files) p)"

text \<open>
  What is left of an entry when \<open>rmtree\<close> has gone through it with the errors ignored:
  nothing, if it could be removed; a directory stays, with what is left of its entries,
  if one of them stays or the directory itself cannot be removed.
\<close>

fun prune :: "fs_node \<Rightarrow> fs_node option"
  and prune_entries :: "(string \<times> fs_node) list \<Rightarrow> (string \<times> fs_node) list" where
  "prune (Regular r) = (if r then None else Some (Regular r))"
| "prune (Symlink r) = (if r then None else Some (Symlink r))"
| "prune (Directory r es) =
     (let es' = prune_entries es
      in if es' = [] \<and> r then None else Some (Directory r es'))"
| "prune_entries [] = []"
| "prune_entries ((n, t) # es) =
     (case prune t of
        None \<Rightarrow> prune_entries es
      | Some t' \<Rightarrow> (n, t') # prune_entries es)"

text \<open>
  \<open>shutil.rmtree(path, ignore_errors=True)\<close> on the path \<open>p\<close> below a node; \<open>None\<close> when the
  node itself is gone. When nothing is at the path, or a symbolic link, or a file that is
  no directory, \<open>rmtree\<close> fails at once, the error is ignored and nothing is removed.
\<close>

fun remove_at :: "path \<Rightarrow> fs_node \<Rightarrow> fs_node option" where
  "remove_at [] (Directory r es) = prune (Directory r es)"
| "remove_at [] (Regular r) = Some (Regular r)"
| "remove_at [] (Symlink r) = Some (Symlink r)"
| "remove_at (c # cs) (Directory r es) =
     (case map_of es c of
        None \<Rightarrow> Some (Directory r es)
      | Some t \<Rightarrow>
          (case remove_at cs t of
             None \<Rightarrow> Some (Directory r (AList.delete c es))
           | Some t' \<Rightarrow> Some (Directory r (AList.update c t' es))))"
| "remove_at (c # cs) (Regular r) = Some (Regular r)"
| "remove_at (c # cs) (Symlink r) = Some (Symlink r)"

definition rmtree :: "path \<Rightarrow> file_system \<Rightarrow> file_system" where
  "rmtree p files =
     (case remove_at p (Directory False files) of
        Some (Directory r es) \<Rightarrow> es
      | _ \<Rightarrow> files)"

text \<open>
  For a path that is not resolved here the outcome of the call is the parameter
  \<open>rmtree_other\<close>: the exception that gets through \<open>ignore_errors\<close>, if any, and the file
  system afterwards.
\<close>

definition rmtree_ignore_errors ::
  "(path \<Rightarrow> file_system \<Rightarrow> error option \<times> file_system) \<Rightarrow> path \<Rightarrow> file_system
    \<Rightarrow> error option \<times> file_system" where
  "rmtree_ignore_errors rmtree_other p files =
     (if plain_path files p then (None, rmtree p files) else rmtree_other p files)"



subsection \<open>StateStoreManager\<close>

text \<open>
  The value of a \<open>store_type\<close> argument: one of the two supported classes, or anything
  else (which \<open>register_store\<close> rejects).
\<close>

datatype store_type = RocksDBStore | MemoryStore | Other_store_type string

text \<open>
  The calls that the manager makes on its collaborators, in the order it makes them.
\<close>

datatype manager_call =
    Register_changelog "string option" string "topic_config option"
  | Store_assign_partition "string option" string int
  | Recovery_assign_partition "string option" int "(string, int) dict" "(string, store_partition) dict"
  | Recovery_revoke_partition int
  | Store_revoke_partition "string option" string int
  | Rmtree path

text \<open>
  The fields of the manager, the log of its calls, and the file system as the paths that
  exist. \<open>state_dir\<close> is an absolute path.
\<close>

record manager =
  state_dir :: "path option"
  rocksdb_options :: "rocksdb_options option"
  stores :: "(string option, (string, store) dict) dict"
  producer :: "producer option"
  recovery_manager :: "recovery_manager option"
  default_store_type :: store_type
  calls :: "manager_call list"
  disk :: file_system

text \<open>
  \<open>__init__\<close>; \<open>dir\<close> is \<open>Path(state_dir).absolute()\<close>, and \<open>group_id\<close> the string given.
  \<open>files\<close> is the file system the manager works on.
\<close>

definition StateStoreManager ::
  "string option \<Rightarrow> path option \<Rightarrow> rocksdb_options option \<Rightarrow> producer option
    \<Rightarrow> recovery_manager option \<Rightarrow> store_type \<Rightarrow> file_system \<Rightarrow> manager" where
  "StateStoreManager group_id dir opts prd rm default_type files =
     \<lparr>state_dir =
        (case dir of
           None \<Rightarrow> None
         | Some d \<Rightarrow> Some (case group_id of None \<Rightarrow> d | Some g \<Rightarrow> join_path d g)),
      rocksdb_options = opts,
      stores = [],
      producer = prd,
      recovery_manager = rm,
      default_store_type = default_type,
      calls = [],
      disk = files\<rparr>"

text \<open>\<open>self._stores.get(topic, {})\<close> and \<open>self._stores.get(topic, {}).get(store_name)\<close>.\<close>

definition topic_stores :: "manager \<Rightarrow> string option \<Rightarrow> (string, store) dict" where
  "topic_stores m topic = (case map_of (stores m) topic of None \<Rightarrow> [] | Some ts \<Rightarrow> ts)"

definition lookup_store :: "manager \<Rightarrow> string option \<Rightarrow> string \<Rightarrow> store option" where
  "lookup_store m topic store_name = map_of (topic_stores m topic) store_name"

text \<open>\<open>self._stores.setdefault(topic_name, {})[store_name] = store\<close>.\<close>

definition put_store :: "string option \<Rightarrow> string \<Rightarrow> store \<Rightarrow> manager \<Rightarrow> manager" where
  "put_store topic_name store_name st m =
     m\<lparr>stores :=
         AList.update topic_name (AList.update store_name st (topic_stores m topic_name))
           (stores m)\<rparr>"

definition get_store :: "manager \<Rightarrow> string option \<Rightarrow> string \<Rightarrow> error + store" where
  "get_store m topic store_name =
     (case lookup_store m topic store_name of
        None \<Rightarrow> Inl StoreNotRegisteredError
      | Some st \<Rightarrow> Inr st)"

definition setup_changelogs ::
  "string option \<Rightarrow> string \<Rightarrow> topic_config option \<Rightarrow> manager
    \<Rightarrow> changelog_producer_factory option \<times> manager" where
  "setup_changelogs topic_name store_name topic_config m =
     (case recovery_manager m of
        None \<Rightarrow> (None, m)
      | Some rm \<Rightarrow>
          (case producer m of
             None \<Rightarrow> (None, m)
           | Some prd \<Rightarrow>
               (let (changelog_topic, rm') =
                      register_changelog topic_name store_name topic_config rm
                in (Some \<lparr>changelog_name = changelog_topic, factory_producer = prd\<rparr>,
                    m\<lparr>recovery_manager := Some rm',
                      calls := calls m @ [Register_changelog topic_name store_name topic_config]\<rparr>))))"

text \<open>
  The three constructor calls. \<open>base_dir\<close> is \<open>str(self._state_dir)\<close>, also when that is
  \<open>None\<close>; a \<open>MemoryStore\<close> has neither \<open>base_dir\<close> nor \<open>options\<close>.
\<close>

definition new_store ::
  "store_class \<Rightarrow> string \<Rightarrow> string option \<Rightarrow> path option option
    \<Rightarrow> changelog_producer_factory option \<Rightarrow> rocksdb_options option \<Rightarrow> store" where
  "new_store cls store_name topic_name base factory opts =
     \<lparr>s_class = cls, s_name = store_name, s_topic = topic_name, s_base_dir = base,
      s_changelog_producer_factory = factory, s_options = opts, partitions = []\<rparr>"

definition register_store ::
  "string option \<Rightarrow> string \<Rightarrow> store_type option \<Rightarrow> topic_config option \<Rightarrow> manager
    \<Rightarrow> (error + unit) \<times> manager" where
  "register_store topic_name store_name store_type topic_config m =
     (if lookup_store m topic_name store_name = None then
        (let (changelog_producer_factory, m1) =
               setup_changelogs topic_name store_name topic_config m;
             store_type1 = (case store_type of None \<Rightarrow> default_store_type m1 | Some t \<Rightarrow> t)
         in if store_type1 = RocksDBStore then
              (Inr (),
               put_store topic_name store_name
                 (new_store RocksDB_store store_name topic_name (Some (state_dir m1))
                    changelog_producer_factory (rocksdb_options m1)) m1)
            else if store_type1 = MemoryStore then
              (Inr (),
               put_store topic_name store_name
                 (new_store Memory_store store_name topic_name None
                    changelog_producer_factory None) m1)
            else (Inl ValueError, m1))
      else (Inr (), m))"

definition register_windowed_store ::
  "string option \<Rightarrow> string \<Rightarrow> manager \<Rightarrow> (error + unit) \<times> manager" where
  "register_windowed_store topic_name store_name m =
     (case lookup_store m topic_name store_name of
        Some st \<Rightarrow> (Inl WindowedStoreAlreadyRegisteredError, m)
      | None \<Rightarrow>
          (let (changelog_producer_factory, m1) =
                 setup_changelogs topic_name store_name None m
           in (Inr (),
               put_store topic_name store_name
                 (new_store WindowedRocksDB_store store_name topic_name (Some (state_dir m1))
                    changelog_producer_factory (rocksdb_options m1)) m1)))"

text \<open>The test of \<open>clear_stores\<close>: some store of some topic has a partition assigned.\<close>

definition any_partitions :: "manager \<Rightarrow> bool" where
  "any_partitions m =
     list_ex (\<lambda>ts. list_ex (\<lambda>st. partitions (snd st) \<noteq> []) (snd ts)) (stores m)"

definition clear_stores ::
  "(path \<Rightarrow> file_system \<Rightarrow> error option \<times> file_system) \<Rightarrow> manager
    \<Rightarrow> (error + unit) \<times> manager" where
  "clear_stores rmtree_other m =
     (if any_partitions m then (Inl PartitionStoreIsUsed, m)
      else
        (case state_dir m of
           None \<Rightarrow> (Inr (), m)
         | Some d \<Rightarrow>
             (case rmtree_ignore_errors rmtree_other d (disk m) of
                (exc, files) \<Rightarrow>
                  ((case exc of None \<Rightarrow> Inr () | Some e \<Rightarrow> Inl e),
                   m\<lparr>disk := files, calls := calls m @ [Rmtree d]\<rparr>))))"

text \<open>
  The loop of \<open>on_partition_assign\<close> over the stores of the topic. It returns the stores
  as \<open>assign_partition\<close> leaves them, the dict \<open>store_partitions\<close>, and the log.
\<close>

fun assign_loop ::
  "string option \<Rightarrow> int \<Rightarrow> (string, store) dict \<Rightarrow> (string, store_partition) dict
    \<Rightarrow> manager_call list
    \<Rightarrow> (string, store) dict \<times> (string, store_partition) dict \<times> manager_call list" where
  "assign_loop topic pnum [] store_partitions trail = ([], store_partitions, trail)"
| "assign_loop topic pnum ((name, st) # rest) store_partitions trail =
     (let (store_partition, st') = assign_partition pnum st;
          (rest', store_partitions', trail') =
            assign_loop topic pnum rest (AList.update name store_partition store_partitions)
              (trail @ [Store_assign_partition topic name pnum])
      in ((name, st') # rest', store_partitions', trail'))"

text \<open>Writing the stores of a topic back: they are mutated in place, no key is added.\<close>

definition set_topic_stores :: "string option \<Rightarrow> (string, store) dict \<Rightarrow> manager \<Rightarrow> manager" where
  "set_topic_stores topic ts m =
     (if map_of (stores m) topic = None then m
      else m\<lparr>stores := AList.update topic ts (stores m)\<rparr>)"

definition on_partition_assign ::
  "string option \<Rightarrow> int \<Rightarrow> (string, int) dict \<Rightarrow> manager
    \<Rightarrow> (string, store_partition) dict \<times> manager" where
  "on_partition_assign topic pnum committed_offsets m =
     (let (ts', store_partitions, trail) = assign_loop topic pnum (topic_stores m topic) [] (calls m);
          m1 = (set_topic_stores topic ts' m)\<lparr>calls := trail\<rparr>;
          m2 =
            (case recovery_manager m1 of
               None \<Rightarrow> m1
             | Some rm \<Rightarrow>
                 if store_partitions \<noteq> [] then
                   m1\<lparr>recovery_manager := Some (recovery_assign_partition topic pnum rm),
                      calls := calls m1 @
                        [Recovery_assign_partition topic pnum committed_offsets store_partitions]\<rparr>
                 else m1)
      in (store_partitions, m2))"

text \<open>
  The loop of \<open>on_partition_revoke\<close>; an exception of a store leaves the loop, the stores
  before it revoked and the others untouched.
\<close>

fun revoke_loop ::
  "string option \<Rightarrow> int \<Rightarrow> (string, store) dict \<Rightarrow> manager_call list
    \<Rightarrow> error option \<times> (string, store) dict \<times> manager_call list" where
  "revoke_loop topic pnum [] trail = (None, [], trail)"
| "revoke_loop topic pnum ((name, st) # rest) trail =
     (let trail1 = trail @ [Store_revoke_partition topic name pnum]
      in case revoke_partition pnum st of
           Inl e \<Rightarrow> (Some e, (name, st) # rest, trail1)
         | Inr st' \<Rightarrow>
             (let (e, rest', trail') = revoke_loop topic pnum rest trail1
              in (e, (name, st') # rest', trail')))"

definition on_partition_revoke :: "string option \<Rightarrow> int \<Rightarrow> manager \<Rightarrow> (error + unit) \<times> manager" where
  "on_partition_revoke topic pnum m =
     (if topic_stores m topic \<noteq> [] then
        (let m1 =
               (case recovery_manager m of
                  None \<Rightarrow> m
                | Some rm \<Rightarrow>
                    m\<lparr>recovery_manager := Some (recovery_revoke_partition pnum rm),
                      calls := calls m @ [Recovery_revoke_partition pnum]\<rparr>);
             (e, ts', trail) = revoke_loop topic pnum (topic_stores m1 topic) (calls m1);
             m2 = (set_topic_stores topic ts' m1)\<lparr>calls := trail\<rparr>
         in ((case e of None \<Rightarrow> Inr () | Some err \<Rightarrow> Inl err), m2))
      else (Inr (), m))"

text \<open>No key occurs twice, in the dict of topics and in the dict of each topic.\<close>

definition wf_manager :: "manager \<Rightarrow> bool" where
  "wf_manager m =
     (distinct (map fst (stores m)) \<and> list_all (\<lambda>ts. distinct (map fst (snd ts))) (stores m))"

text \<open>The calls of a log that are \<open>assign_partition\<close> or \<open>revoke_partition\<close> of a store.\<close>

fun is_store_assign :: "manager_call \<Rightarrow> bool" where
  "is_store_assign (Store_assign_partition t n p) = True"
| "is_store_assign c = False"

fun is_store_revoke :: "manager_call \<Rightarrow> bool" where
  "is_store_revoke (Store_revoke_partition t n p) = True"
| "is_store_revoke c = False"

subsection \<open>An example\<close>

text \<open>
  A file system with the state of the group \<open>g\<close> and of another group, everything
  removable; a manager on it with a state directory, a group id, a producer and a
  recovery manager, on which the store \<open>default\<close> and the windowed store \<open>w\<close> are registered for the topic
  \<open>t\<close>; and the same manager after partition 0 of \<open>t\<close> was assigned.
\<close>

definition example_files :: file_system where
  "example_files =
     [(''state'',
       Directory True
         [(''g'',
           Directory True
             [(''default'', Directory True [(''0'', Directory True [(''CURRENT'', Regular True)])])]),
          (''h'', Directory True [])])]"

definition example_manager :: manager where
  "example_manager =
     snd (register_windowed_store (Some ''t'') ''w''
       (snd (register_store (Some ''t'') ''default'' None None
         (StateStoreManager (Some ''g'') (Some [''state'']) None (Some (RowProducer 0))
            (Some \<lparr>rm_changelogs = [], rm_partitions = []\<rparr>) MemoryStore example_files))))"

definition example_assigned :: manager where
  "example_assigned = snd (on_partition_assign (Some ''t'') 0 [(''t'', 5)] example_manager)"

section \<open>Properties of the file source\<close>

subsection \<open>The traversal order of \<open>_file_finder\<close>\<close>

lemma append_less_append: "(p @ a < p @ b) = (a < (b :: 'a :: order list))"
  by (induction p) auto

lemma files_of_prefix: "q \<in> files_of p t \<Longrightarrow> prefix p q"
proof (induction p t arbitrary: q rule: files_of.induct)
  case (1 p rs)
  then show ?case by simp
next
  case (2 p es)
  then obtain e where e: "e \<in> set es" "q \<in> files_of (p @ [fst e]) (snd e)"
    by auto
  from 2(1)[OF e] have "prefix (p @ [fst e]) q" .
  then show ?case using append_prefixD by blast
qed

lemma file_finder_set: "fst ` set (file_finder p t) = files_of p t"
  by (induction p t rule: file_finder.induct) (auto simp: image_UN)

text \<open>Files below two entries of one directory compare as the entry names do.\<close>

lemma files_of_block_less:
  assumes "q1 \<in> files_of (p @ [n1]) t1" and "q2 \<in> files_of (p @ [n2]) t2" and "n1 < n2"
  shows "q1 < q2"
proof -
  from assms(1) obtain r1 where r1: "q1 = p @ n1 # r1"
    using files_of_prefix by (fastforce simp: prefix_def)
  from assms(2) obtain r2 where r2: "q2 = p @ n2 # r2"
    using files_of_prefix by (fastforce simp: prefix_def)
  show ?thesis using assms(3) by (simp add: r1 r2 append_less_append)
qed

lemma sorted_blocks:
  assumes "sorted_wrt (<) (map fst es)"
    and "\<forall>e \<in> set es. sorted_wrt (<) (map fst (file_finder (p @ [fst e]) (snd e)))"
  shows "sorted_wrt (<) (map fst (concat (map (\<lambda>e. file_finder (p @ [fst e]) (snd e)) es)))"
  using assms
proof (induction es)
  case Nil
  then show ?case by simp
next
  case (Cons e es)
  have cross: "q1 < q2"
    if "q1 \<in> fst ` set (file_finder (p @ [fst e]) (snd e))"
      and "q2 \<in> fst ` set (concat (map (\<lambda>e. file_finder (p @ [fst e]) (snd e)) es))"
    for q1 q2
  proof -
    from that(2) obtain e' where e': "e' \<in> set es"
      "q2 \<in> fst ` set (file_finder (p @ [fst e']) (snd e'))"
      by auto
    from Cons.prems(1) e'(1) have "fst e < fst e'" by auto
    then show ?thesis
      using that(1) e'(2) files_of_block_less unfolding file_finder_set by blast
  qed
  have "sorted_wrt (<) (map fst (concat (map (\<lambda>e. file_finder (p @ [fst e]) (snd e)) es)))"
    using Cons by simp
  moreover have "sorted_wrt (<) (map fst (file_finder (p @ [fst e]) (snd e)))"
    using Cons.prems(2) by simp
  ultimately show ?case
    using cross by (simp add: sorted_wrt_append)
qed

lemma file_finder_sorted: "wf_tree t \<Longrightarrow> sorted_wrt (<) (map fst (file_finder p t))"
proof (induction p t rule: file_finder.induct)
  case (1 p rs)
  then show ?case by simp
next
  case (2 p es)
  have "sorted_wrt (<) (map fst (sort_key fst es))"
    using 2(2) by (simp add: strict_sorted_iff distinct_map)
  moreover have
    "\<forall>e \<in> set (sort_key fst es). sorted_wrt (<) (map fst (file_finder (p @ [fst e]) (snd e)))"
    using 2 by auto
  ultimately show ?case using sorted_blocks by simp
qed

lemma file_finder_paths_unique:
  assumes "wf_tree t" and "wf_tree t'" and "files_of p t = files_of p t'"
  shows "map fst (file_finder p t) = map fst (file_finder p t')"
proof -
  have "sorted (map fst (file_finder p t)) \<and> distinct (map fst (file_finder p t))"
    using file_finder_sorted[OF assms(1), of p] by (simp add: strict_sorted_iff)
  moreover have "sorted (map fst (file_finder p t')) \<and> distinct (map fst (file_finder p t'))"
    using file_finder_sorted[OF assms(2), of p] by (simp add: strict_sorted_iff)
  moreover have "set (map fst (file_finder p t)) = set (map fst (file_finder p t'))"
    using assms(3) by (simp add: file_finder_set)
  ultimately show ?thesis
    by (blast intro: sorted_distinct_set_unique)
qed

text \<open>
  Claim C9. For a directory tree whose entry names are unique in each directory,
  \<open>_file_finder\<close> yields exactly the non-directory files of the tree, each once, and in
  increasing lexicographic order of their paths, the components compared as strings:
  that is the depth-first order that takes the entries of every directory sorted by name.
  The order is therefore fixed by the set of files alone, whatever order the directories
  are listed in. Names are compared as strings, not as numbers: the folder \<open>10\<close> comes
  before the folder \<open>2\<close>.
\<close>

theorem file_finder_sorted_depth_first:
  "wf_tree t \<Longrightarrow>
     fst ` set (file_finder p t) = files_of p t
     \<and> distinct (map fst (file_finder p t))
     \<and> sorted_wrt (<) (map fst (file_finder p t))
     \<and> (\<forall>t'. wf_tree t' \<and> files_of p t' = files_of p t
            \<longrightarrow> map fst (file_finder p t') = map fst (file_finder p t))
     \<and> map fst (file_finder p (Dir [(''2'', File a), (''10'', File b)]))
         = [p @ [''10''], p @ [''2'']]"
proof (intro conjI allI impI)
  assume wf: "wf_tree t"
  show "fst ` set (file_finder p t) = files_of p t"
    by (rule file_finder_set)
  show "sorted_wrt (<) (map fst (file_finder p t))"
    using wf by (rule file_finder_sorted)
  then show "distinct (map fst (file_finder p t))"
    by (simp add: strict_sorted_iff)
  show "map fst (file_finder p t') = map fst (file_finder p t)"
    if "wf_tree t' \<and> files_of p t' = files_of p t" for t'
    using that wf by (intro file_finder_paths_unique) simp_all
  show "map fst (file_finder p (Dir [(''2'', File a), (''10'', File b)]))
         = [p @ [''10''], p @ [''2'']]"
    by simp
qed

theorem file_finder_sorted_depth_first_witness:
  "wf_tree (Dir [(''2'', Dir [(''b'', File []), (''a'', File [])]), (''10'', Dir [(''x'', File [])])])
   \<and> map fst (file_finder [''t'']
        (Dir [(''2'', Dir [(''b'', File []), (''a'', File [])]), (''10'', Dir [(''x'', File [])])]))
       = [[''t'', ''10'', ''x''], [''t'', ''2'', ''a''], [''t'', ''2'', ''b'']]
   \<and> sorted_wrt (<) [[''t'', ''10'', ''x''], [''t'', ''2'', ''a''], [''t'', ''2'', ''b'']]"
proof -
  let ?T = "Dir [(''2'', Dir [(''b'', File []), (''a'', File [])]), (''10'', Dir [(''x'', File [])])]"
  have wf: "wf_tree ?T" by simp
  have ev: "map fst (file_finder [''t''] ?T)
      = [[''t'', ''10'', ''x''], [''t'', ''2'', ''a''], [''t'', ''2'', ''b'']]"
    by simp
  from file_finder_sorted_depth_first[OF wf, of "[''t'']"]
  have "sorted_wrt (<) (map fst (file_finder [''t''] ?T))" by blast
  with wf ev show ?thesis by simp
qed

subsection \<open>What \<open>run\<close> emits\<close>


lemma replay_delay_fields [simp]:
  "as_replay (replay_delay t s) = as_replay s"
  "running (replay_delay t s) = running s"
  "filepath (replay_delay t s) = filepath s"
  "previous_partition (replay_delay t s) = previous_partition s"
  "previous_timestamp (replay_delay t s) = Some t"
  by (simp_all add: replay_delay_def Let_def split: option.splits)


lemma read_records_fields [simp]:
  "as_replay (read_records rs s) = as_replay s"
  "running (read_records rs s) = running s"
  "filepath (read_records rs s) = filepath s"
  "previous_partition (read_records rs s) = previous_partition s"
  by (induction rs arbitrary: s) (simp_all add: produce_def)







subsection \<open>Replay pacing\<close>












subsection \<open>The default topic\<close>

text \<open>
  Claim C8. When the source's \<open>filepath\<close> is a directory, \<open>default_topic()\<close> returns the
  superclass's default topic with only its config replaced: \<open>num_partitions\<close> is the
  number of entries directly inside the directory, files and folders alike, and
  \<open>replication_factor\<close> is 1.
\<close>

theorem default_topic_counts_entries:
  "\<exists>t. default_topic super_topic (Dir es) = Inr t
      \<and> t = super_topic\<lparr>config := config t\<rparr>
      \<and> name_of_topic t = name_of_topic super_topic
      \<and> num_partitions (config t) = int (length es)
      \<and> replication_factor (config t) = 1"
  by (simp add: default_topic_def get_partition_count_def)

section \<open>Properties of the temperature generator\<close>

lemma decade: "40 \<le> (t::int) \<Longrightarrow> t \<le> 99 \<Longrightarrow>
   (t div 10) * 10 = 40 \<and> t \<le> 49 \<or> (t div 10) * 10 = 50 \<and> 50 \<le> t \<and> t \<le> 59
   \<or> (t div 10) * 10 = 60 \<and> 60 \<le> t \<and> t \<le> 69 \<or> (t div 10) * 10 = 70 \<and> 70 \<le> t \<and> t \<le> 79
   \<or> (t div 10) * 10 = 80 \<and> 80 \<le> t \<and> t \<le> 89 \<or> (t div 10) * 10 = 90 \<and> 90 \<le> t"
  by presburger

lemma index3: "i < Suc (Suc (Suc 0)) \<Longrightarrow> i = 0 \<or> i = 1 \<or> i = 2"
  by arith

lemma normal_step:
  assumes "40 \<le> t" "t \<le> 90" "probabilities_normal ((t div 10) * 10) = Some w" "can_select w i"
  shows "\<exists>c. choices [-1, 0, 1] w i = Inr c \<and> 40 \<le> t + c \<and> t + c \<le> 90"
proof -
  from decade[of t] assms(1,2) consider
    "(t div 10) * 10 = 40" "t \<le> 49" | "(t div 10) * 10 = 50" "50 \<le> t" "t \<le> 59"
    | "(t div 10) * 10 = 60" "60 \<le> t" "t \<le> 69" | "(t div 10) * 10 = 70" "70 \<le> t" "t \<le> 79"
    | "(t div 10) * 10 = 80" "80 \<le> t" "t \<le> 89" | "(t div 10) * 10 = 90" "90 \<le> t"
    by fastforce
  then show ?thesis
  proof cases
    case 1
    with assms(3) have w: "w = [0, 0, 100]" by (simp add: probabilities_normal_def)
    with assms(4) have "i = 2" using index3[of i] by (auto simp: can_select_def)
    then show ?thesis using 1 assms(1) by (simp add: w choices_def)
  next
    case 2
    with assms(3) have w: "w = [20, 30, 50]" by (simp add: probabilities_normal_def)
    with assms(4) have "i = 0 \<or> i = 1 \<or> i = 2" using index3[of i] by (auto simp: can_select_def)
    then show ?thesis using 2 by (auto simp: w choices_def)
  next
    case 3
    with assms(3) have w: "w = [30, 40, 30]" by (simp add: probabilities_normal_def)
    with assms(4) have "i = 0 \<or> i = 1 \<or> i = 2" using index3[of i] by (auto simp: can_select_def)
    then show ?thesis using 3 by (auto simp: w choices_def)
  next
    case 4
    with assms(3) have w: "w = [40, 50, 10]" by (simp add: probabilities_normal_def)
    with assms(4) have "i = 0 \<or> i = 1 \<or> i = 2" using index3[of i] by (auto simp: can_select_def)
    then show ?thesis using 4 by (auto simp: w choices_def)
  next
    case 5
    with assms(3) have w: "w = [80, 10, 10]" by (simp add: probabilities_normal_def)
    with assms(4) have "i = 0 \<or> i = 1 \<or> i = 2" using index3[of i] by (auto simp: can_select_def)
    then show ?thesis using 5 by (auto simp: w choices_def)
  next
    case 6
    with assms(3) have w: "w = [100, 0, 0]" by (simp add: probabilities_normal_def)
    with assms(4) have "i = 0" using index3[of i] by (auto simp: can_select_def)
    then show ?thesis using 6 assms(2) by (simp add: w choices_def)
  qed
qed

lemma issue_step:
  assumes "40 \<le> t" "t \<le> 99" "probabilities_issue ((t div 10) * 10) = Some w" "can_select w i"
  shows "\<exists>c. choices [-1, 0, 1] w i = Inr c \<and> 40 \<le> t + c \<and> t + c \<le> 100"
proof -
  from decade[of t] assms(1,2) consider
    "(t div 10) * 10 = 40" "t \<le> 49" | "(t div 10) * 10 = 50" "50 \<le> t" "t \<le> 59"
    | "(t div 10) * 10 = 60" "60 \<le> t" "t \<le> 69" | "(t div 10) * 10 = 70" "70 \<le> t" "t \<le> 79"
    | "(t div 10) * 10 = 80" "80 \<le> t" "t \<le> 89" | "(t div 10) * 10 = 90" "90 \<le> t"
    by fastforce
  then show ?thesis
  proof cases
    case 1
    with assms(3) have w: "w = [0, 0, 100]" by (simp add: probabilities_issue_def)
    with assms(4) have "i = 2" using index3[of i] by (auto simp: can_select_def)
    then show ?thesis using 1 assms(1) by (simp add: w choices_def)
  next
    case 2
    with assms(3) have w: "w = [0, 10, 90]" by (simp add: probabilities_issue_def)
    with assms(4) have "i = 0 \<or> i = 1 \<or> i = 2" using index3[of i] by (auto simp: can_select_def)
    then show ?thesis using 2 by (auto simp: w choices_def)
  next
    case 3
    with assms(3) have w: "w = [5, 15, 80]" by (simp add: probabilities_issue_def)
    with assms(4) have "i = 0 \<or> i = 1 \<or> i = 2" using index3[of i] by (auto simp: can_select_def)
    then show ?thesis using 3 by (auto simp: w choices_def)
  next
    case 4
    with assms(3) have w: "w = [5, 20, 75]" by (simp add: probabilities_issue_def)
    with assms(4) have "i = 0 \<or> i = 1 \<or> i = 2" using index3[of i] by (auto simp: can_select_def)
    then show ?thesis using 4 by (auto simp: w choices_def)
  next
    case 5
    with assms(3) have w: "w = [5, 20, 75]" by (simp add: probabilities_issue_def)
    with assms(4) have "i = 0 \<or> i = 1 \<or> i = 2" using index3[of i] by (auto simp: can_select_def)
    then show ?thesis using 5 by (auto simp: w choices_def)
  next
    case 6
    with assms(3) have w: "w = [10, 20, 70]" by (simp add: probabilities_issue_def)
    with assms(4) have "i = 0 \<or> i = 1 \<or> i = 2" using index3[of i] by (auto simp: can_select_def)
    then show ?thesis using 6 assms(2) by (auto simp: w choices_def)
  qed
qed

lemma normal_row: "40 \<le> t \<Longrightarrow> t \<le> 90 \<Longrightarrow> \<exists>w. probabilities_normal ((t div 10) * 10) = Some w"
  using decade[of t] by (auto simp: probabilities_normal_def)

lemma issue_row: "40 \<le> t \<Longrightarrow> t \<le> 99 \<Longrightarrow> \<exists>w. probabilities_issue ((t div 10) * 10) = Some w"
  using decade[of t] by (auto simp: probabilities_issue_def)

lemma mod3: "(n::int) mod 3 = 0 \<or> n mod 3 = 1 \<or> n mod 3 = 2"
  by presburger

lemma generate_event_inv:
  assumes inv: "gen_inv g" and run: "gen_running g"
    and draw: "case next_weights g of None \<Rightarrow> True | Some weights \<Rightarrow> can_select weights i"
  shows "\<exists>event g'. generate_event i g = Inr (event, g') \<and> gen_inv g'
           \<and> gen_inv (g'\<lparr>gen_produced := gen_produced g' @ [event]\<rparr>)"
proof -
  from inv obtain t0 t1 t2 where
    ty: "machine_types g 0 = Some probabilities_normal"
        "machine_types g 1 = Some probabilities_normal"
        "machine_types g 2 = Some probabilities_issue"
    and tm: "machine_temps g 0 = Some t0" "machine_temps g 1 = Some t1" "machine_temps g 2 = Some t2"
    and b: "40 \<le> t0" "t0 \<le> 90" "40 \<le> t1" "t1 \<le> 90" "40 \<le> t2" "t2 \<le> 100"
    and r: "gen_running g \<longleftrightarrow> t2 \<noteq> 100"
    unfolding gen_inv_def by blast
  from r run b have t2: "t2 \<le> 99" by simp
  consider "event_count g mod 3 = 0" | "event_count g mod 3 = 1" | "event_count g mod 3 = 2"
    using mod3[of "event_count g"] by blast
  then show ?thesis
  proof cases
    case 1
    from normal_row[OF b(1,2)] obtain w where w: "probabilities_normal ((t0 div 10) * 10) = Some w" ..
    have "can_select w i" using draw by (simp add: next_weights_def 1 tm ty w)
    from normal_step[OF b(1,2) w this] obtain c where
      c: "choices [-1, 0, 1] w i = Inr c" "40 \<le> t0 + c" "t0 + c \<le> 90" by blast
    show ?thesis
      using c b tm ty r run
      by (simp add: generate_event_def update_machine_temp_def 1 w gen_inv_def stop_def Let_def)
  next
    case 2
    from normal_row[OF b(3,4)] obtain w where w: "probabilities_normal ((t1 div 10) * 10) = Some w" ..
    have "can_select w i" using draw by (simp add: next_weights_def 2 tm ty w)
    from normal_step[OF b(3,4) w this] obtain c where
      c: "choices [-1, 0, 1] w i = Inr c" "40 \<le> t1 + c" "t1 + c \<le> 90" by blast
    show ?thesis
      using c b tm ty r run
      by (simp add: generate_event_def update_machine_temp_def 2 w gen_inv_def stop_def Let_def)
  next
    case 3
    from issue_row[OF b(5) t2] obtain w where w: "probabilities_issue ((t2 div 10) * 10) = Some w" ..
    have "can_select w i" using draw by (simp add: next_weights_def 3 tm ty w)
    from issue_step[OF b(5) t2 w this] obtain c where
      c: "choices [-1, 0, 1] w i = Inr c" "40 \<le> t2 + c" "t2 + c \<le> 100" by blast
    show ?thesis
      using c b tm ty r run
      by (simp add: generate_event_def update_machine_temp_def 3 w gen_inv_def stop_def Let_def)
  qed
qed

lemma run_generator_inv:
  "gen_inv g \<Longrightarrow> possible_draws draws g \<Longrightarrow> \<exists>g'. run_generator draws g = Inr g' \<and> gen_inv g'"
proof (induction draws arbitrary: g)
  case Nil
  then show ?case by simp
next
  case (Cons i draws)
  show ?case
  proof (cases "gen_running g")
    case False
    then show ?thesis using Cons.prems by simp
  next
    case True
    from Cons.prems(2) True have
      d: "case next_weights g of None \<Rightarrow> True | Some weights \<Rightarrow> can_select weights i" by simp
    from generate_event_inv[OF Cons.prems(1) True d] obtain event g' where
      g': "generate_event i g = Inr (event, g')"
      "gen_inv (g'\<lparr>gen_produced := gen_produced g' @ [event]\<rparr>)" by blast
    from Cons.prems(2) True g'(1)
    have "possible_draws draws (g'\<lparr>gen_produced := gen_produced g' @ [event]\<rparr>)" by simp
    from Cons.IH[OF g'(2) this] show ?thesis using True g'(1) by simp
  qed
qed

lemma gen_inv_init: "gen_inv TemperatureGenerator"
  by (simp add: gen_inv_def TemperatureGenerator_def)

lemma gen_inv_within: "gen_inv g \<Longrightarrow> temps_within 40 100 g"
  by (auto simp: gen_inv_def temps_within_def)

text \<open>
  Claim C10. From the initial temperatures \<open>{0: 66, 1: 58, 2: 62}\<close>, whatever the random
  outcomes (each of positive weight when drawn), the loop of \<open>run\<close> raises nothing, so no
  lookup \<open>(temp // 10) * 10\<close> misses its table, and every machine's temperature stays
  within 40 and 100. The flag is clear exactly when a temperature has reached 100; while
  it is set every temperature is at most 99 and the next lookup has its key. In the 40s
  both tables give the changes \<open>-1\<close> and \<open>0\<close> weight zero.
\<close>

theorem temperatures_stay_within_range:
  "possible_draws draws TemperatureGenerator \<Longrightarrow>
   \<exists>g. run_generator draws TemperatureGenerator = Inr g
      \<and> temps_within 40 100 g
      \<and> gen_running g = (machine_temps g 0 \<noteq> Some 100 \<and> machine_temps g 1 \<noteq> Some 100
                          \<and> machine_temps g 2 \<noteq> Some 100)
      \<and> (if gen_running g then temps_within 40 99 g \<and> next_weights g \<noteq> None else True)
      \<and> probabilities_normal 40 = Some [0, 0, 100]
      \<and> probabilities_issue 40 = Some [0, 0, 100]"
proof -
  assume "possible_draws draws TemperatureGenerator"
  from run_generator_inv[OF gen_inv_init this] obtain g where
    g: "run_generator draws TemperatureGenerator = Inr g" "gen_inv g" by blast
  from g(2) obtain t0 t1 t2 where
    ty: "machine_types g 0 = Some probabilities_normal"
        "machine_types g 1 = Some probabilities_normal"
        "machine_types g 2 = Some probabilities_issue"
    and tm: "machine_temps g 0 = Some t0" "machine_temps g 1 = Some t1" "machine_temps g 2 = Some t2"
    and b: "40 \<le> t0" "t0 \<le> 90" "40 \<le> t1" "t1 \<le> 90" "40 \<le> t2" "t2 \<le> 100"
    and r: "gen_running g \<longleftrightarrow> t2 \<noteq> 100"
    unfolding gen_inv_def by blast
  have 1: "temps_within 40 100 g"
    using g(2) by (rule gen_inv_within)
  have 2: "gen_running g = (machine_temps g 0 \<noteq> Some 100 \<and> machine_temps g 1 \<noteq> Some 100
                          \<and> machine_temps g 2 \<noteq> Some 100)"
    using tm b r by auto
  have 3: "temps_within 40 99 g" if "gen_running g"
    using that tm b r by (simp add: temps_within_def)
  have 4: "next_weights g \<noteq> None" if run: "gen_running g"
  proof -
    from r run b have t2: "t2 \<le> 99" by simp
    consider "event_count g mod 3 = 0" | "event_count g mod 3 = 1" | "event_count g mod 3 = 2"
      using mod3[of "event_count g"] by blast
    then show ?thesis
    proof cases
      case 1
      then show ?thesis using normal_row[OF b(1,2)] by (auto simp: next_weights_def tm ty)
    next
      case 2
      then show ?thesis using normal_row[OF b(3,4)] by (auto simp: next_weights_def tm ty)
    next
      case 3
      then show ?thesis using issue_row[OF b(5) t2] by (auto simp: next_weights_def tm ty)
    qed
  qed
  have 5: "probabilities_normal 40 = Some [0, 0, 100]" "probabilities_issue 40 = Some [0, 0, 100]"
    by (simp_all add: probabilities_normal_def probabilities_issue_def)
  show ?thesis using g(1) 1 2 3 4 5 by auto
qed

theorem temperatures_stay_within_range_witness:
  "possible_draws [2, 1, 2, 0] TemperatureGenerator
   \<and> (\<exists>g. run_generator [2, 1, 2, 0] TemperatureGenerator = Inr g
         \<and> temps_within 40 100 g \<and> gen_running g)"
proof -
  have p: "possible_draws [2, 1, 2, 0] TemperatureGenerator"
    by (simp add: TemperatureGenerator_def next_weights_def can_select_def generate_event_def
        update_machine_temp_def choices_def probabilities_normal_def probabilities_issue_def
        stop_def Let_def)
  have r: "run_generator [2, 1, 2, 0] TemperatureGenerator =
     Inr \<lparr>event_count = 4, machine_temps = [0 \<mapsto> 66, 1 \<mapsto> 58, 2 \<mapsto> 63],
          machine_types =
            [0 \<mapsto> probabilities_normal, 1 \<mapsto> probabilities_normal, 2 \<mapsto> probabilities_issue],
          gen_running = True,
          gen_produced =
            [\<lparr>event_key = 0, temperature_c = 67\<rparr>, \<lparr>event_key = 1, temperature_c = 58\<rparr>,
             \<lparr>event_key = 2, temperature_c = 63\<rparr>, \<lparr>event_key = 0, temperature_c = 66\<rparr>]\<rparr>"
    by (simp add: TemperatureGenerator_def generate_event_def
        update_machine_temp_def choices_def probabilities_normal_def probabilities_issue_def
        stop_def Let_def fun_upd_twist)
  from temperatures_stay_within_range[OF p] obtain g where
    "run_generator [2, 1, 2, 0] TemperatureGenerator = Inr g" "temps_within 40 100 g"
    by blast
  with p r show ?thesis by auto
qed

section \<open>Properties of the state store manager\<close>

subsection \<open>Registration\<close>

lemma setup_changelogs_stores [simp]:
  "stores (snd (setup_changelogs T S cfg m)) = stores m"
  by (simp add: setup_changelogs_def register_changelog_def split: option.splits)

lemma setup_changelogs_topic_stores [simp]:
  "topic_stores (snd (setup_changelogs T S cfg m)) T' = topic_stores m T'"
  by (simp add: topic_stores_def)

lemma setup_changelogs_lookup [simp]:
  "lookup_store (snd (setup_changelogs T S cfg m)) T' S' = lookup_store m T' S'"
  by (simp add: lookup_store_def)

lemma lookup_put_store:
  "lookup_store (put_store T S st m) T' S' =
     (if T' = T \<and> S' = S then Some st else lookup_store m T' S')"
  by (auto simp: lookup_store_def put_store_def topic_stores_def update_conv' split: option.splits)

lemma register_store_registered:
  "fst (register_store T S ty cfg m) = Inr () \<Longrightarrow>
   lookup_store (snd (register_store T S ty cfg m)) T S \<noteq> None"
  by (auto simp: register_store_def Let_def lookup_put_store split: prod.splits if_splits)

text \<open>
  Claim C1 (as stated, refuted). The claim says that a second \<open>register_store\<close> for the
  same topic and store name with a conflicting \<open>store_type\<close> is rejected. On a fresh
  manager, after \<open>register_store("t", "s", store_type=MemoryStore)\<close> the call
  \<open>register_store("t", "s", store_type=RocksDBStore)\<close> returns normally, changes nothing,
  and the store registered stays the \<open>MemoryStore\<close>.
\<close>

theorem register_store_conflict_accepted:
  "fst (register_store (Some ''t'') ''s'' (Some MemoryStore) None
          (StateStoreManager None None None None None RocksDBStore [])) = Inr ()
   \<and> register_store (Some ''t'') ''s'' (Some RocksDBStore) None
        (snd (register_store (Some ''t'') ''s'' (Some MemoryStore) None
          (StateStoreManager None None None None None RocksDBStore [])))
      = (Inr (),
         snd (register_store (Some ''t'') ''s'' (Some MemoryStore) None
          (StateStoreManager None None None None None RocksDBStore [])))
   \<and> map_option s_class
        (lookup_store
          (snd (register_store (Some ''t'') ''s'' (Some RocksDBStore) None
            (snd (register_store (Some ''t'') ''s'' (Some MemoryStore) None
              (StateStoreManager None None None None None RocksDBStore [])))))
          (Some ''t'') ''s'')
      = Some Memory_store"
  by (simp add: register_store_def StateStoreManager_def lookup_store_def topic_stores_def
      setup_changelogs_def put_store_def new_store_def)

text \<open>
  Claim C1 (amended). After a successful \<open>register_store(topic_name, store_name)\<close>, every
  further call with the same topic and store name returns normally and leaves the manager
  as it is, whatever \<open>store_type\<close> and \<open>topic_config\<close> it is given: the first
  registration stands, and nothing is registered with the recovery manager again.
\<close>

theorem register_store_again_is_noop:
  "fst (register_store T S ty cfg m) = Inr () \<Longrightarrow>
   register_store T S ty' cfg' (snd (register_store T S ty cfg m))
     = (Inr (), snd (register_store T S ty cfg m))"
  using register_store_registered[of T S ty cfg m]
  by (auto simp: register_store_def[of T S ty' cfg'])

theorem register_store_again_is_noop_witness:
  "fst (register_store (Some ''t'') ''s'' (Some MemoryStore) None
          (StateStoreManager None None None None None RocksDBStore [])) = Inr ()
   \<and> register_store (Some ''t'') ''s'' (Some (Other_store_type ''dict'')) None
        (snd (register_store (Some ''t'') ''s'' (Some MemoryStore) None
          (StateStoreManager None None None None None RocksDBStore [])))
      = (Inr (),
         snd (register_store (Some ''t'') ''s'' (Some MemoryStore) None
          (StateStoreManager None None None None None RocksDBStore [])))"
proof -
  have ok: "fst (register_store (Some ''t'') ''s'' (Some MemoryStore) None
          (StateStoreManager None None None None None RocksDBStore [])) = Inr ()"
    by (simp add: register_store_def StateStoreManager_def lookup_store_def topic_stores_def
        setup_changelogs_def)
  from register_store_again_is_noop[OF ok, of "Some (Other_store_type ''dict'')" None] ok
  show ?thesis by simp
qed

text \<open>
  Claim C5. \<open>register_windowed_store(topic_name, store_name)\<close> raises
  WindowedStoreAlreadyRegisteredError, and changes nothing, whenever a store of that name
  is registered under the topic, windowed or not. Otherwise it returns normally, a
  windowed store with that name and topic and no partition is registered under the pair,
  and every other registration is as before.
\<close>

theorem register_windowed_store_spec:
  "(lookup_store m T S \<noteq> None \<longrightarrow>
      register_windowed_store T S m = (Inl WindowedStoreAlreadyRegisteredError, m))
   \<and> (lookup_store m T S = None \<longrightarrow>
      (\<exists>m' st. register_windowed_store T S m = (Inr (), m')
         \<and> lookup_store m' T S = Some st
         \<and> s_class st = WindowedRocksDB_store \<and> s_name st = S \<and> s_topic st = T
         \<and> partitions st = []
         \<and> (\<forall>T' S'. (T', S') \<noteq> (T, S) \<longrightarrow> lookup_store m' T' S' = lookup_store m T' S')))"
proof (intro conjI impI)
  assume "lookup_store m T S \<noteq> None"
  then show "register_windowed_store T S m = (Inl WindowedStoreAlreadyRegisteredError, m)"
    by (auto simp: register_windowed_store_def)
next
  assume free: "lookup_store m T S = None"
  obtain factory m1 where sc: "setup_changelogs T S None m = (factory, m1)"
    by (cases "setup_changelogs T S None m")
  then have same: "lookup_store m1 T' S' = lookup_store m T' S'" for T' S'
    using setup_changelogs_lookup[of T S None m T' S'] by simp
  let ?st = "new_store WindowedRocksDB_store S T (Some (state_dir m1)) factory (rocksdb_options m1)"
  have "register_windowed_store T S m = (Inr (), put_store T S ?st m1)"
    by (simp add: register_windowed_store_def free sc)
  moreover have "lookup_store (put_store T S ?st m1) T S = Some ?st"
    by (simp add: lookup_put_store)
  moreover have "s_class ?st = WindowedRocksDB_store \<and> s_name ?st = S \<and> s_topic ?st = T
      \<and> partitions ?st = []"
    by (simp add: new_store_def)
  moreover have "\<forall>T' S'. (T', S') \<noteq> (T, S) \<longrightarrow>
      lookup_store (put_store T S ?st m1) T' S' = lookup_store m T' S'"
    by (auto simp: lookup_put_store same)
  ultimately show "\<exists>m' st. register_windowed_store T S m = (Inr (), m')
         \<and> lookup_store m' T S = Some st
         \<and> s_class st = WindowedRocksDB_store \<and> s_name st = S \<and> s_topic st = T
         \<and> partitions st = []
         \<and> (\<forall>T' S'. (T', S') \<noteq> (T, S) \<longrightarrow> lookup_store m' T' S' = lookup_store m T' S')"
    by blast
qed

theorem register_windowed_store_spec_witness:
  "register_windowed_store (Some ''t'') ''s''
      (snd (register_store (Some ''t'') ''s'' (Some MemoryStore) None
         (StateStoreManager None None None None None RocksDBStore [])))
     = (Inl WindowedStoreAlreadyRegisteredError,
        snd (register_store (Some ''t'') ''s'' (Some MemoryStore) None
         (StateStoreManager None None None None None RocksDBStore [])))
   \<and> (\<exists>m' st. register_windowed_store (Some ''t'') ''w''
         (snd (register_store (Some ''t'') ''s'' (Some MemoryStore) None
           (StateStoreManager None None None None None RocksDBStore []))) = (Inr (), m')
       \<and> lookup_store m' (Some ''t'') ''w'' = Some st \<and> s_class st = WindowedRocksDB_store)"
proof -
  let ?m = "snd (register_store (Some ''t'') ''s'' (Some MemoryStore) None
         (StateStoreManager None None None None None RocksDBStore []))"
  have used: "lookup_store ?m (Some ''t'') ''s'' \<noteq> None"
    by (simp add: register_store_def StateStoreManager_def lookup_store_def topic_stores_def
        setup_changelogs_def put_store_def)
  have free: "lookup_store ?m (Some ''t'') ''w'' = None"
    by (simp add: register_store_def StateStoreManager_def lookup_store_def topic_stores_def
        setup_changelogs_def put_store_def)
  from register_windowed_store_spec[of ?m "Some ''t''" "''s''"] used
  have 1: "register_windowed_store (Some ''t'') ''s'' ?m
      = (Inl WindowedStoreAlreadyRegisteredError, ?m)" by blast
  from register_windowed_store_spec[of ?m "Some ''t''" "''w''"] free
  have 2: "\<exists>m' st. register_windowed_store (Some ''t'') ''w'' ?m = (Inr (), m')
       \<and> lookup_store m' (Some ''t'') ''w'' = Some st \<and> s_class st = WindowedRocksDB_store"
    by blast
  from 1 2 show ?thesis by (rule conjI)
qed


subsection \<open>Clearing the stores\<close>













subsection \<open>Assignment and revocation\<close>

lemma update_fresh: "k \<notin> fst ` set al \<Longrightarrow> AList.update k v al = al @ [(k, v)]"
  by (induction al) auto

lemma assign_loop_result:
  "assign_loop topic p ts sps trail =
     (map (\<lambda>e. (fst e, snd (assign_partition p (snd e)))) ts,
      fold (\<lambda>e acc. AList.update (fst e) (fst (assign_partition p (snd e))) acc) ts sps,
      trail @ map (\<lambda>e. Store_assign_partition topic (fst e) p) ts)"
proof (induction ts arbitrary: sps trail)
  case Nil
  then show ?case by simp
next
  case (Cons e ts)
  obtain name st where e: "e = (name, st)" by (cases e)
  show ?case by (simp add: e Cons.IH split: prod.splits)
qed

lemma fold_update_distinct:
  "distinct (map fst ts) \<Longrightarrow> fst ` set ts \<inter> fst ` set sps = {} \<Longrightarrow>
   fold (\<lambda>e acc. AList.update (fst e) (f e) acc) ts sps = sps @ map (\<lambda>e. (fst e, f e)) ts"
proof (induction ts arbitrary: sps)
  case Nil
  then show ?case by simp
next
  case (Cons e ts)
  have fresh: "fst e \<notin> fst ` set sps" using Cons.prems(2) by auto
  have "fst ` set ts \<inter> fst ` set (sps @ [(fst e, f e)]) = {}"
    using Cons.prems by auto
  with Cons.IH[of "sps @ [(fst e, f e)]"] Cons.prems(1) show ?case
    by (simp add: update_fresh[OF fresh])
qed

lemma wf_topic_stores: "wf_manager m \<Longrightarrow> distinct (map fst (topic_stores m topic))"
proof -
  assume wf: "wf_manager m"
  show ?thesis
  proof (cases "map_of (stores m) topic")
    case None
    then show ?thesis by (simp add: topic_stores_def)
  next
    case (Some ts)
    then have "(topic, ts) \<in> set (stores m)" by (rule map_of_SomeD)
    with wf have "distinct (map fst ts)" by (auto simp: wf_manager_def list_all_iff)
    with Some show ?thesis by (simp add: topic_stores_def)
  qed
qed

lemma topic_stores_set:
  "topic_stores (set_topic_stores topic ts m) topic = (if map_of (stores m) topic = None then [] else ts)"
  by (simp add: topic_stores_def set_topic_stores_def update_conv')

lemma filter_store_assign:
  "filter is_store_assign (map (\<lambda>e. Store_assign_partition topic (fst e) p) ts)
     = map (\<lambda>e. Store_assign_partition topic (fst e) p) ts"
  by (induction ts) simp_all

text \<open>
  Claim C4. \<open>on_partition_assign(topic, partition, committed_offsets)\<close> calls
  \<open>assign_partition(partition)\<close> once on every store registered under the topic, in the
  order of registration, and on no other store; the dict it returns has exactly the names
  of these stores as keys, each with the \<open>StorePartition\<close> that its store returned; and
  the stores are afterwards as their \<open>assign_partition\<close> left them.
\<close>

theorem on_partition_assign_fan_out:
  "wf_manager m \<Longrightarrow>
   fst (on_partition_assign topic p offsets m)
     = map (\<lambda>e. (fst e, fst (assign_partition p (snd e)))) (topic_stores m topic)
   \<and> distinct (map fst (topic_stores m topic))
   \<and> filter is_store_assign
       (drop (length (calls m)) (calls (snd (on_partition_assign topic p offsets m))))
     = map (\<lambda>e. Store_assign_partition topic (fst e) p) (topic_stores m topic)
   \<and> topic_stores (snd (on_partition_assign topic p offsets m)) topic
     = map (\<lambda>e. (fst e, snd (assign_partition p (snd e)))) (topic_stores m topic)"
proof -
  assume wf: "wf_manager m"
  let ?ts = "topic_stores m topic"
  let ?sps = "map (\<lambda>e. (fst e, fst (assign_partition p (snd e)))) ?ts"
  let ?ts' = "map (\<lambda>e. (fst e, snd (assign_partition p (snd e)))) ?ts"
  let ?new = "map (\<lambda>e. Store_assign_partition topic (fst e) p) ?ts"
  have d: "distinct (map fst ?ts)" using wf by (rule wf_topic_stores)
  have loop: "assign_loop topic p ?ts [] (calls m) = (?ts', ?sps, calls m @ ?new)"
    using fold_update_distinct[OF d, of "[]" "\<lambda>e. fst (assign_partition p (snd e))"]
    by (simp add: assign_loop_result)
  have 1: "fst (on_partition_assign topic p offsets m) = ?sps"
    by (simp add: on_partition_assign_def loop Let_def)
  have c: "calls (snd (on_partition_assign topic p offsets m)) = calls m @ ?new @
     (if recovery_manager m \<noteq> None \<and> ?sps \<noteq> []
      then [Recovery_assign_partition topic p offsets ?sps] else [])"
    by (auto simp: on_partition_assign_def loop Let_def set_topic_stores_def split: option.splits)
  have 3: "filter is_store_assign
       (drop (length (calls m)) (calls (snd (on_partition_assign topic p offsets m)))) = ?new"
    by (simp add: c filter_store_assign)
  have st: "stores (snd (on_partition_assign topic p offsets m)) = stores (set_topic_stores topic ?ts' m)"
    by (auto simp: on_partition_assign_def loop Let_def split: option.splits)
  have "topic_stores (snd (on_partition_assign topic p offsets m)) topic
      = topic_stores (set_topic_stores topic ?ts' m) topic"
    by (simp add: topic_stores_def st)
  also have "\<dots> = ?ts'"
    by (auto simp: topic_stores_set) (simp add: topic_stores_def)
  finally show ?thesis using 1 d 3 by simp
qed

lemma revoke_loop_calls:
  "\<exists>k. k \<le> length ts \<and>
     snd (snd (revoke_loop topic p ts trail))
       = trail @ map (\<lambda>e. Store_revoke_partition topic (fst e) p) (take k ts)
     \<and> (fst (revoke_loop topic p ts trail) = None \<longrightarrow> k = length ts)"
proof (induction ts arbitrary: trail)
  case Nil
  then show ?case by simp
next
  case (Cons e ts)
  obtain name st where e: "e = (name, st)" by (cases e)
  let ?trail1 = "trail @ [Store_revoke_partition topic name p]"
  show ?case
  proof (cases "revoke_partition p st")
    case (Inl err)
    then have rl: "revoke_loop topic p (e # ts) trail = (Some err, (name, st) # ts, ?trail1)"
      by (simp add: e)
    show ?thesis
      unfolding rl by (rule exI[of _ "Suc 0"]) (simp add: e)
  next
    case (Inr st')
    from Cons.IH[of ?trail1] obtain k where kk: "k \<le> length ts \<and>
      snd (snd (revoke_loop topic p ts ?trail1))
        = ?trail1 @ map (\<lambda>e. Store_revoke_partition topic (fst e) p) (take k ts) \<and>
      (fst (revoke_loop topic p ts ?trail1) = None \<longrightarrow> k = length ts)" ..
    then have k: "k \<le> length ts"
      "snd (snd (revoke_loop topic p ts ?trail1))
        = ?trail1 @ map (\<lambda>e. Store_revoke_partition topic (fst e) p) (take k ts)"
      "fst (revoke_loop topic p ts ?trail1) = None \<longrightarrow> k = length ts"
      by simp_all
    obtain err rest' trail' where r: "revoke_loop topic p ts ?trail1 = (err, rest', trail')"
      by (cases "revoke_loop topic p ts ?trail1")
    have rl: "revoke_loop topic p (e # ts) trail = (err, (name, st') # rest', trail')"
      by (simp add: e Inr r)
    show ?thesis
      unfolding rl using k unfolding r by (intro exI[of _ "Suc k"]) (simp add: e)
  qed
qed

text \<open>
  Claim C6. With a recovery manager configured, the calls that
  \<open>on_partition_revoke(topic, partition)\<close> makes are: none, when no store is registered
  under the topic; otherwise first \<open>revoke_partition\<close> of the recovery manager for that
  partition, and then \<open>revoke_partition\<close> of the stores of the topic in order, of all of
  them when the call returns normally. So every call of a store's \<open>revoke_partition\<close> has
  the call of the recovery manager before it.
\<close>

theorem on_partition_revoke_recovery_first:
  "recovery_manager m = Some rm \<Longrightarrow>
   \<exists>k \<le> length (topic_stores m topic).
     calls (snd (on_partition_revoke topic p m))
       = calls m @
         (if topic_stores m topic = [] then []
          else Recovery_revoke_partition p
               # map (\<lambda>e. Store_revoke_partition topic (fst e) p) (take k (topic_stores m topic)))
     \<and> (fst (on_partition_revoke topic p m) = Inr () \<longrightarrow> k = length (topic_stores m topic))
     \<and> (\<forall>before c after.
           drop (length (calls m)) (calls (snd (on_partition_revoke topic p m)))
             = before @ c # after \<and> is_store_revoke c
           \<longrightarrow> Recovery_revoke_partition p \<in> set before)"
proof (cases "topic_stores m topic = []")
  case True
  then show ?thesis by (simp add: on_partition_revoke_def)
next
  case False
  assume rm: "recovery_manager m = Some rm"
  let ?ts = "topic_stores m topic"
  let ?m1 = "m\<lparr>recovery_manager := Some (recovery_revoke_partition p rm),
               calls := calls m @ [Recovery_revoke_partition p]\<rparr>"
  let ?c1 = "calls m @ [Recovery_revoke_partition p]"
  have ts1: "topic_stores ?m1 topic = ?ts" by (simp add: topic_stores_def)
  from revoke_loop_calls[of ?ts topic p "?c1"] obtain k where kk: "k \<le> length ?ts \<and>
    snd (snd (revoke_loop topic p ?ts ?c1))
      = ?c1 @ map (\<lambda>e. Store_revoke_partition topic (fst e) p) (take k ?ts) \<and>
    (fst (revoke_loop topic p ?ts ?c1) = None \<longrightarrow> k = length ?ts)" ..
  then have k: "k \<le> length ?ts"
    "snd (snd (revoke_loop topic p ?ts ?c1))
      = ?c1 @ map (\<lambda>e. Store_revoke_partition topic (fst e) p) (take k ?ts)"
    "fst (revoke_loop topic p ?ts ?c1) = None \<longrightarrow> k = length ?ts"
    by simp_all
  obtain e ts' trail' where rl: "revoke_loop topic p ?ts ?c1 = (e, ts', trail')"
    by (cases "revoke_loop topic p ?ts ?c1")
  have unf: "on_partition_revoke topic p m =
      ((case e of None \<Rightarrow> Inr () | Some err \<Rightarrow> Inl err),
       (set_topic_stores topic ts' ?m1)\<lparr>calls := trail'\<rparr>)"
    unfolding on_partition_revoke_def using False rm by (simp add: Let_def ts1 rl)
  have c: "calls (snd (on_partition_revoke topic p m)) = snd (snd (revoke_loop topic p ?ts ?c1))"
    by (simp add: unf rl)
  have r: "fst (on_partition_revoke topic p m) = Inr () \<longleftrightarrow> fst (revoke_loop topic p ?ts ?c1) = None"
    by (cases e) (simp_all add: unf rl)
  let ?new = "Recovery_revoke_partition p # map (\<lambda>e. Store_revoke_partition topic (fst e) p) (take k ?ts)"
  have new: "calls (snd (on_partition_revoke topic p m)) = calls m @ ?new"
    using c k(2) by simp
  have ord: "Recovery_revoke_partition p \<in> set before"
    if "?new = before @ c # after" "is_store_revoke c" for before c after
  proof (cases before)
    case Nil
    with that show ?thesis by auto
  next
    case (Cons b bs)
    with that(1) show ?thesis by simp
  qed
  have d: "drop (length (calls m)) (calls (snd (on_partition_revoke topic p m))) = ?new"
    by (simp add: new)
  show ?thesis
  proof (intro exI[of _ k] conjI allI impI)
    show "k \<le> length ?ts" by (rule k(1))
    show "calls (snd (on_partition_revoke topic p m)) = calls m @
         (if ?ts = [] then [] else ?new)"
      using new False by simp
    show "k = length ?ts" if "fst (on_partition_revoke topic p m) = Inr ()"
      using that r k(3) by simp
    show "Recovery_revoke_partition p \<in> set before"
      if "drop (length (calls m)) (calls (snd (on_partition_revoke topic p m)))
             = before @ c # after \<and> is_store_revoke c" for before c after
      using that ord[of before c after] unfolding d by simp
  qed
qed


subsection \<open>The example managers, evaluated\<close>

lemma example_manager_value:
  "example_manager =
     \<lparr>state_dir = Some [''state'', ''g''], rocksdb_options = None,
      stores =
        [(Some ''t'',
          [(''default'',
            \<lparr>s_class = Memory_store, s_name = ''default'', s_topic = Some ''t'',
             s_base_dir = None,
             s_changelog_producer_factory =
               Some \<lparr>changelog_name = (Some ''t'', ''default''),
                     factory_producer = RowProducer 0\<rparr>,
             s_options = None, partitions = []\<rparr>),
           (''w'',
            \<lparr>s_class = WindowedRocksDB_store, s_name = ''w'', s_topic = Some ''t'',
             s_base_dir = Some (Some [''state'', ''g'']),
             s_changelog_producer_factory =
               Some \<lparr>changelog_name = (Some ''t'', ''w''), factory_producer = RowProducer 0\<rparr>,
             s_options = None, partitions = []\<rparr>)])],
      producer = Some (RowProducer 0),
      recovery_manager =
        Some \<lparr>rm_changelogs = [(Some ''t'', ''default''), (Some ''t'', ''w'')],
              rm_partitions = []\<rparr>,
      default_store_type = MemoryStore,
      calls =
        [Register_changelog (Some ''t'') ''default'' None,
         Register_changelog (Some ''t'') ''w'' None],
      disk = example_files\<rparr>"
  by (simp add: example_manager_def register_windowed_store_def register_store_def
      StateStoreManager_def lookup_store_def topic_stores_def setup_changelogs_def
      register_changelog_def put_store_def new_store_def join_path_def path_parts_def)

lemma example_assigned_value:
  "example_assigned =
     \<lparr>state_dir = Some [''state'', ''g''], rocksdb_options = None,
      stores =
        [(Some ''t'',
          [(''default'',
            \<lparr>s_class = Memory_store, s_name = ''default'', s_topic = Some ''t'',
             s_base_dir = None,
             s_changelog_producer_factory =
               Some \<lparr>changelog_name = (Some ''t'', ''default''),
                     factory_producer = RowProducer 0\<rparr>,
             s_options = None,
             partitions =
               [(0, \<lparr>sp_topic = Some ''t'', sp_store = ''default'', sp_partition = 0,
                      open_transaction = False\<rparr>)]\<rparr>),
           (''w'',
            \<lparr>s_class = WindowedRocksDB_store, s_name = ''w'', s_topic = Some ''t'',
             s_base_dir = Some (Some [''state'', ''g'']),
             s_changelog_producer_factory =
               Some \<lparr>changelog_name = (Some ''t'', ''w''), factory_producer = RowProducer 0\<rparr>,
             s_options = None,
             partitions =
               [(0, \<lparr>sp_topic = Some ''t'', sp_store = ''w'', sp_partition = 0,
                      open_transaction = False\<rparr>)]\<rparr>)])],
      producer = Some (RowProducer 0),
      recovery_manager =
        Some \<lparr>rm_changelogs = [(Some ''t'', ''default''), (Some ''t'', ''w'')],
              rm_partitions = [(Some ''t'', 0)]\<rparr>,
      default_store_type = MemoryStore,
      calls =
        [Register_changelog (Some ''t'') ''default'' None,
         Register_changelog (Some ''t'') ''w'' None,
         Store_assign_partition (Some ''t'') ''default'' 0,
         Store_assign_partition (Some ''t'') ''w'' 0,
         Recovery_assign_partition (Some ''t'') 0 [(''t'', 5)]
           [(''default'',
             \<lparr>sp_topic = Some ''t'', sp_store = ''default'', sp_partition = 0,
              open_transaction = False\<rparr>),
            (''w'',
             \<lparr>sp_topic = Some ''t'', sp_store = ''w'', sp_partition = 0,
              open_transaction = False\<rparr>)]],
      disk = example_files\<rparr>"
  by (simp add: example_assigned_def example_manager_value on_partition_assign_def
      topic_stores_def assign_partition_def set_topic_stores_def recovery_assign_partition_def
      Let_def)

lemma example_manager_wf: "wf_manager example_manager"
  by (simp add: example_manager_value wf_manager_def)



theorem on_partition_assign_fan_out_witness:
  "wf_manager example_manager
   \<and> map fst (fst (on_partition_assign (Some ''t'') 0 [(''t'', 5)] example_manager))
       = [''default'', ''w'']
   \<and> filter is_store_assign
       (drop (length (calls example_manager))
          (calls (snd (on_partition_assign (Some ''t'') 0 [(''t'', 5)] example_manager))))
     = [Store_assign_partition (Some ''t'') ''default'' 0,
        Store_assign_partition (Some ''t'') ''w'' 0]"
proof -
  have ts: "topic_stores example_manager (Some ''t'') =
      [(''default'', snd (hd (topic_stores example_manager (Some ''t'')))),
       (''w'', snd (hd (tl (topic_stores example_manager (Some ''t'')))))]"
    by (simp add: example_manager_value topic_stores_def)
  from on_partition_assign_fan_out[OF example_manager_wf, of "Some ''t''" 0 "[(''t'', 5)]"]
  have "fst (on_partition_assign (Some ''t'') 0 [(''t'', 5)] example_manager)
     = map (\<lambda>e. (fst e, fst (assign_partition 0 (snd e)))) (topic_stores example_manager (Some ''t''))"
    and "filter is_store_assign
       (drop (length (calls example_manager))
          (calls (snd (on_partition_assign (Some ''t'') 0 [(''t'', 5)] example_manager))))
     = map (\<lambda>e. Store_assign_partition (Some ''t'') (fst e) 0)
         (topic_stores example_manager (Some ''t''))"
    by simp_all
  then have "map fst (fst (on_partition_assign (Some ''t'') 0 [(''t'', 5)] example_manager))
       = map fst (topic_stores example_manager (Some ''t''))"
    and "filter is_store_assign
       (drop (length (calls example_manager))
          (calls (snd (on_partition_assign (Some ''t'') 0 [(''t'', 5)] example_manager))))
     = map (\<lambda>n. Store_assign_partition (Some ''t'') n 0)
         (map fst (topic_stores example_manager (Some ''t'')))"
    by (simp_all add: comp_def)
  moreover have "map fst (topic_stores example_manager (Some ''t'')) = [''default'', ''w'']"
    by (subst ts) simp
  ultimately show ?thesis using example_manager_wf by simp
qed

theorem on_partition_revoke_recovery_first_witness:
  "recovery_manager example_assigned
     = Some \<lparr>rm_changelogs = [(Some ''t'', ''default''), (Some ''t'', ''w'')],
             rm_partitions = [(Some ''t'', 0)]\<rparr>
   \<and> drop (length (calls example_assigned))
        (calls (snd (on_partition_revoke (Some ''t'') 0 example_assigned)))
      = [Recovery_revoke_partition 0,
         Store_revoke_partition (Some ''t'') ''default'' 0,
         Store_revoke_partition (Some ''t'') ''w'' 0]
   \<and> Recovery_revoke_partition 0 \<in> set [Recovery_revoke_partition 0]"
proof -
  have rm: "recovery_manager example_assigned
     = Some \<lparr>rm_changelogs = [(Some ''t'', ''default''), (Some ''t'', ''w'')],
             rm_partitions = [(Some ''t'', 0)]\<rparr>"
    by (simp add: example_assigned_value)
  have ev: "drop (length (calls example_assigned))
        (calls (snd (on_partition_revoke (Some ''t'') 0 example_assigned)))
      = [Recovery_revoke_partition 0] @
         Store_revoke_partition (Some ''t'') ''default'' 0 #
         [Store_revoke_partition (Some ''t'') ''w'' 0]"
    by (simp add: example_assigned_value on_partition_revoke_def topic_stores_def
        revoke_partition_def set_topic_stores_def recovery_revoke_partition_def Let_def)
  from on_partition_revoke_recovery_first[OF rm, of "Some ''t''" 0]
  have "\<forall>before c after.
           drop (length (calls example_assigned))
             (calls (snd (on_partition_revoke (Some ''t'') 0 example_assigned)))
             = before @ c # after \<and> is_store_revoke c
           \<longrightarrow> Recovery_revoke_partition 0 \<in> set before"
    by blast
  with ev have "Recovery_revoke_partition 0 \<in> set [Recovery_revoke_partition 0]"
    by (metis is_store_revoke.simps(1))
  with rm ev show ?thesis by simp
qed

subsection \<open>Unique keys are an invariant\<close>

text \<open>
  A fresh manager has no key twice, and no method of the manager adds a key that is there.
\<close>


lemma wf_manager_init: "wf_manager (StateStoreManager group_id dir opts prd rm ty files)"
  by (simp add: wf_manager_def StateStoreManager_def)

lemma wf_manager_stores: "stores m' = stores m \<Longrightarrow> wf_manager m' = wf_manager m"
  by (simp add: wf_manager_def)

lemma update_set_subset: "set (AList.update k v al) \<subseteq> insert (k, v) (set al)"
  by (induction al) auto

lemma wf_update_topic:
  assumes "wf_manager m" and "distinct (map fst ts)"
  shows "wf_manager (m\<lparr>stores := AList.update T ts (stores m)\<rparr>)"
proof -
  have d: "distinct (map fst (AList.update T ts (stores m)))"
    using assms(1) by (simp add: wf_manager_def distinct_update)
  have "distinct (map fst (snd e))" if "e \<in> set (AList.update T ts (stores m))" for e
  proof -
    from that update_set_subset[of T ts "stores m"]
    have "e = (T, ts) \<or> e \<in> set (stores m)" by auto
    then show ?thesis
      using assms by (auto simp: wf_manager_def list_all_iff)
  qed
  with d show ?thesis by (simp add: wf_manager_def list_all_iff)
qed

lemma wf_put_store: "wf_manager m \<Longrightarrow> wf_manager (put_store T S st m)"
  unfolding put_store_def
  by (rule wf_update_topic) (simp_all add: distinct_update wf_topic_stores)

lemma wf_register_store: "wf_manager m \<Longrightarrow> wf_manager (snd (register_store T S ty cfg m))"
proof -
  assume wf: "wf_manager m"
  obtain f m1 where sc: "setup_changelogs T S cfg m = (f, m1)"
    by (cases "setup_changelogs T S cfg m")
  then have "stores m1 = stores m"
    using setup_changelogs_stores[of T S cfg m] by simp
  then have "wf_manager m1" using wf wf_manager_stores[of m1 m] by simp
  then show ?thesis
    using wf by (simp add: register_store_def sc Let_def wf_put_store)
qed

lemma wf_register_windowed_store:
  "wf_manager m \<Longrightarrow> wf_manager (snd (register_windowed_store T S m))"
proof -
  assume wf: "wf_manager m"
  obtain f m1 where sc: "setup_changelogs T S None m = (f, m1)"
    by (cases "setup_changelogs T S None m")
  then have "stores m1 = stores m"
    using setup_changelogs_stores[of T S None m] by simp
  then have "wf_manager m1" using wf wf_manager_stores[of m1 m] by simp
  then show ?thesis
    using wf by (simp add: register_windowed_store_def sc wf_put_store split: option.splits)
qed


lemma revoke_loop_keys: "map fst (fst (snd (revoke_loop topic p ts trail))) = map fst ts"
proof (induction ts arbitrary: trail)
  case Nil
  then show ?case by simp
next
  case (Cons e ts)
  obtain name st where e: "e = (name, st)" by (cases e)
  let ?trail1 = "trail @ [Store_revoke_partition topic name p]"
  show ?case
  proof (cases "revoke_partition p st")
    case (Inl err)
    then show ?thesis by (simp add: e)
  next
    case (Inr st')
    obtain err rest' trail' where r: "revoke_loop topic p ts ?trail1 = (err, rest', trail')"
      by (cases "revoke_loop topic p ts ?trail1")
    from Cons.IH[of ?trail1] have "map fst rest' = map fst ts" by (simp add: r)
    then show ?thesis by (simp add: e Inr r)
  qed
qed

lemma wf_set_topic_stores:
  "wf_manager m \<Longrightarrow> distinct (map fst ts) \<Longrightarrow> wf_manager (set_topic_stores T ts m)"
  by (simp add: set_topic_stores_def wf_update_topic)

lemma wf_on_partition_assign:
  assumes wf: "wf_manager m"
  shows "wf_manager (snd (on_partition_assign topic p offsets m))"
proof -
  let ?ts' = "map (\<lambda>e. (fst e, snd (assign_partition p (snd e)))) (topic_stores m topic)"
  have "map fst ?ts' = map fst (topic_stores m topic)" by (simp add: comp_def)
  with wf_topic_stores[OF wf, of topic] have "distinct (map fst ?ts')" by (simp only:)
  then have w: "wf_manager (set_topic_stores topic ?ts' m)"
    using wf by (rule wf_set_topic_stores[rotated])
  have "stores (snd (on_partition_assign topic p offsets m)) = stores (set_topic_stores topic ?ts' m)"
    by (auto simp: on_partition_assign_def assign_loop_result Let_def split: option.splits)
  from wf_manager_stores[OF this] w show ?thesis by simp
qed

lemma wf_on_partition_revoke:
  assumes wf: "wf_manager m"
  shows "wf_manager (snd (on_partition_revoke topic p m))"
proof (cases "topic_stores m topic = []")
  case True
  then show ?thesis using wf by (simp add: on_partition_revoke_def)
next
  case False
  let ?m1 = "case recovery_manager m of
               None \<Rightarrow> m
             | Some rm \<Rightarrow>
                 m\<lparr>recovery_manager := Some (recovery_revoke_partition p rm),
                   calls := calls m @ [Recovery_revoke_partition p]\<rparr>"
  have s1: "stores ?m1 = stores m" by (simp split: option.splits)
  then have ts1: "topic_stores ?m1 topic = topic_stores m topic" by (simp add: topic_stores_def)
  have w1: "wf_manager ?m1" using wf wf_manager_stores[OF s1] by simp
  obtain e ts' trail' where rl: "revoke_loop topic p (topic_stores m topic) (calls ?m1) = (e, ts', trail')"
    by (cases "revoke_loop topic p (topic_stores m topic) (calls ?m1)")
  have "map fst ts' = map fst (topic_stores m topic)"
    using revoke_loop_keys[of topic p "topic_stores m topic" "calls ?m1"] by (simp add: rl)
  then have "distinct (map fst ts')" using wf_topic_stores[OF wf, of topic] by simp
  with w1 have w2: "wf_manager (set_topic_stores topic ts' ?m1)" by (rule wf_set_topic_stores)
  have "stores (snd (on_partition_revoke topic p m)) = stores (set_topic_stores topic ts' ?m1)"
    unfolding on_partition_revoke_def using False by (simp add: Let_def ts1 rl)
  from wf_manager_stores[OF this] w2 show ?thesis by simp
qed

lemma wf_clear_stores: "wf_manager m \<Longrightarrow> wf_manager (snd (clear_stores rmtree_other m))"
  by (simp add: clear_stores_def wf_manager_def split: option.splits prod.splits)

end
